theory Spec2Isabelle
  imports Complex_Main "HOL-Library.Log_Nat"
begin

text \<open>
  A model of the parsers, the combiner and the periodic-box logic of the renderer of the
  Bullview viewer (\<open>parsers.js\<close>, \<open>renderer.js\<close>). Each function of the source is
  a function here, under its name; an exception is a value \<open>Inl\<close> of the result; the
  state that the renderer mutates is passed in and returned. Arrays are lists without a
  bound on their length: the limits of the engine on the size of an array are not
  represented.
\<close>

section \<open>JavaScript numbers\<close>

text \<open>
  A JavaScript number is a binary64 value: NaN, one of the two infinities, or a finite
  value, which \<open>Num\<close> carries as a real. The sign of zero is not represented. Every
  operation that can round does so through \<open>round64\<close>, so the finite values that
  arise are those of binary64.
\<close>

datatype jsnum = NaN | Num real | PosInf | NegInf

text \<open>The power of two with an integer exponent.\<close>

definition pow2 :: "int \<Rightarrow> real" where
  "pow2 e = (if 0 \<le> e then 2 ^ nat e else 1 / 2 ^ nat (- e))"

text \<open>The nearest integer, the even one of the two when they are equally near.\<close>

definition round_even :: "real \<Rightarrow> int" where
  "round_even t =
     (let f = \<lfloor>t\<rfloor>; d = t - of_int f
      in if d < 1 / 2 then f else if 1 / 2 < d then f + 1 else if even f then f else f + 1)"

text \<open>
  The binary exponent of a positive real \<open>a\<close>: the \<open>e\<close> with \<open>2\<^sup>e \<le> a < 2\<^sup>e\<^sup>+\<^sup>1\<close>, but
  not less than \<open>-1022\<close>, the exponent of the subnormal values. It is read off the
  number of bits of the integer part of \<open>a\<close>, or of \<open>1 / a\<close> rounded up when \<open>a < 1\<close>.
\<close>

definition binary_exponent :: "real \<Rightarrow> int" where
  "binary_exponent a =
     (if 1 \<le> a then bitlen \<lfloor>a\<rfloor> - 1 else max (- bitlen (\<lceil>1 / a\<rceil> - 1)) (- 1022))"

text \<open>
  Rounding a real to binary64, to the nearest value and to the even significand on a
  tie: the significand has 53 bits, so the values near \<open>x\<close> are the multiples of
  \<open>2\<^sup>e\<^sup>-\<^sup>5\<^sup>2\<close>; a result of \<open>2\<^sup>1\<^sup>0\<^sup>2\<^sup>4\<close> or more is an infinity.
\<close>

definition round64 :: "real \<Rightarrow> jsnum" where
  "round64 x =
     (if x = 0 then Num 0
      else (let e = binary_exponent \<bar>x\<bar>;
                q = pow2 (e - 52);
                m = round_even (\<bar>x\<bar> / q)
            in if 1023 < e \<or> (e = 1023 \<and> m = 2 ^ 53)
               then (if x < 0 then NegInf else PosInf)
               else Num (if x < 0 then - (of_int m * q) else of_int m * q)))"

text \<open>The operator \<open>+\<close> on numbers: the sum of two finite values is rounded.\<close>

fun js_add :: "jsnum \<Rightarrow> jsnum \<Rightarrow> jsnum" where
  "js_add (Num a) (Num b) = round64 (a + b)"
| "js_add NaN _ = NaN"
| "js_add _ NaN = NaN"
| "js_add PosInf NegInf = NaN"
| "js_add NegInf PosInf = NaN"
| "js_add PosInf _ = PosInf"
| "js_add _ PosInf = PosInf"
| "js_add NegInf _ = NegInf"
| "js_add _ NegInf = NegInf"

text \<open>Rounding towards zero, as the quotient of \<open>%\<close> is rounded.\<close>

definition js_trunc :: "real \<Rightarrow> int" where
  "js_trunc q = (if 0 \<le> q then \<lfloor>q\<rfloor> else \<lceil>q\<rceil>)"

text \<open>
  The operator \<open>%\<close>: NaN when the dividend is not finite or the divisor is zero or NaN,
  the dividend itself when the divisor is infinite, and otherwise the remainder of the
  truncated division, which has the sign of the dividend. The remainder of two binary64
  values is a binary64 value: this operation does not round.
\<close>

fun js_rem :: "jsnum \<Rightarrow> jsnum \<Rightarrow> jsnum" where
  "js_rem (Num a) (Num b) = (if b = 0 then NaN else Num (a - b * of_int (js_trunc (a / b))))"
| "js_rem (Num a) PosInf = Num a"
| "js_rem (Num a) NegInf = Num a"
| "js_rem _ _ = NaN"

text \<open>The operator \<open><\<close> on numbers: every comparison with NaN is false.\<close>

fun js_lt :: "jsnum \<Rightarrow> jsnum \<Rightarrow> bool" where
  "js_lt (Num a) (Num b) = (a < b)"
| "js_lt NaN _ = False"
| "js_lt _ NaN = False"
| "js_lt NegInf NegInf = False"
| "js_lt NegInf _ = True"
| "js_lt _ NegInf = False"
| "js_lt PosInf _ = False"
| "js_lt _ PosInf = True"

section \<open>Periodic wrapping\<close>

text \<open>
  The helper \<open>wrap\<close> of \<open>DNARenderer.updateParticlePositions\<close>:
  \<^verbatim>\<open>
  const wrap = (val, max) => {
      let res = val % max;
      if (res < 0) res += max;
      return res;
  };
  \<close>
\<close>

definition wrap :: "jsnum \<Rightarrow> jsnum \<Rightarrow> jsnum" where
  "wrap val mx =
     (let res = js_rem val mx
      in if js_lt res (Num 0) then js_add res mx else res)"

section \<open>Documents\<close>

text \<open>
  \<open>parseInt\<close> returns an integer or NaN: \<open>None\<close> stands for NaN. The integer is
  kept exactly: the rounding of \<open>parseInt\<close> beyond \<open>2\<^sup>5\<^sup>3\<close> is not represented. A
  property that may hold a number or \<open>undefined\<close> is a \<open>jsnum option\<close>, with \<open>None\<close>
  for \<open>undefined\<close>.
\<close>

type_synonym jsint = "int option"

text \<open>Strict equality \<open>===\<close> of two numbers: NaN equals nothing, not even itself.\<close>

definition js_eq :: "jsint \<Rightarrow> jsint \<Rightarrow> bool" where
  "js_eq a b = (a \<noteq> None \<and> a = b)"

text \<open>The comparison \<open>a < n\<close> of a number with an array length: false for NaN.\<close>

definition js_lt_length :: "jsint \<Rightarrow> nat \<Rightarrow> bool" where
  "js_lt_length a n = (case a of None \<Rightarrow> False | Some k \<Rightarrow> k < int n)"

record vec3 =
  vec_x :: jsnum
  vec_y :: jsnum
  vec_z :: jsnum

record PatchTemplate =
  patch_id :: jsint
  patch_color :: jsint
  patch_strength :: jsnum
  patch_position :: vec3

record SpringTemplate =
  spring_id :: jsint
  spring_stiffness :: jsnum
  spring_restLength :: jsnum
  spring_position :: vec3

record Connection =
  particleIndex :: jsint
  springIndex :: jsint

record ParticleRecord =
  rec_index :: nat
  rec_type :: jsint
  rec_strand :: jsint
  rec_radius :: jsnum
  rec_mass :: jsnum
  rec_patches :: "jsint list"
  rec_connections :: "Connection list"

record TopologyHeader =
  numParticles :: "jsnum option"
  numStrands :: "jsnum option"
  maxSpringsPerParticle :: "jsnum option"
  repeatedPatchesPerParticle :: "jsnum option"

record TopologyDocument =
  topo_header :: TopologyHeader
  topo_patches :: "PatchTemplate list"
  topo_springs :: "SpringTemplate list"
  topo_particles :: "ParticleRecord list"

record NucleotideState =
  nuc_index :: nat
  nuc_position :: vec3
  nuc_baseVector :: vec3
  nuc_normalVector :: vec3
  nuc_velocity :: vec3
  nuc_angularVelocity :: vec3

record BoxSpec =
  box_x :: "jsnum option"
  box_y :: "jsnum option"
  box_z :: "jsnum option"

record Energy =
  energy_total :: "jsnum option"
  energy_potential :: "jsnum option"
  energy_kinetic :: "jsnum option"

record ConfigurationDocument =
  conf_timestep :: jsint
  conf_box :: BoxSpec
  conf_energy :: Energy
  conf_nucleotides :: "NucleotideState list"

text \<open>
  The merged particle. Its five vectors are \<open>BABYLON.Vector3\<close> objects; the type
  parameter is the representation of such an object: a \<open>vec3\<close> value for the combiner,
  which creates them and never writes to them, and an address in the store for the
  renderer, which holds references to them.
\<close>

record 'v Particle =
  index :: nat
  ptype :: jsint
  strand :: jsint
  radius :: jsnum
  mass :: jsnum
  patches :: "PatchTemplate list"
  connections :: "Connection list"
  position :: 'v
  baseVector :: 'v
  normalVector :: 'v
  velocity :: 'v
  angularVelocity :: 'v

record Bond =
  bond_from :: jsint
  bond_to :: jsint
  bond_spring :: "SpringTemplate option"

record Metadata =
  meta_timestep :: jsint
  meta_box :: BoxSpec
  meta_energy :: Energy
  meta_numStrands :: "jsnum option"

record 'v StructureGraph =
  particles :: "'v Particle list"
  bonds :: "Bond list"
  metadata :: Metadata

section \<open>Strings and the conversions to numbers\<close>

text \<open>
  A string is a list of code units; a \<open>char\<close> stands for the code unit of the same
  value, so the texts covered are those over U+0000 .. U+00FF. The white space of
  \<open>trim\<close> and of the pattern \<open>\s\<close> in that range: tab, line feed, vertical tab, form
  feed, carriage return, space and no-break space.
\<close>

definition is_space :: "char \<Rightarrow> bool" where
  "is_space c = (of_char c \<in> set [9, 10, 11, 12, 13, 32, 160 :: nat])"

definition trimStart :: "string \<Rightarrow> string" where
  "trimStart s = dropWhile is_space s"

definition trim :: "string \<Rightarrow> string" where
  "trim s = rev (dropWhile is_space (rev (dropWhile is_space s)))"

definition startsWith :: "string \<Rightarrow> string \<Rightarrow> bool" where
  "startsWith s p = (take (length p) s = p)"

text \<open>
  \<open>s.split(c)\<close> for a one-character separator: the pieces between the occurrences of
  \<open>c\<close>; \<open>cur\<close> is the piece being read. The result is never empty.
\<close>

fun split_from :: "char \<Rightarrow> string \<Rightarrow> string \<Rightarrow> string list" where
  "split_from c cur [] = [cur]"
| "split_from c cur (d # s) =
     (if d = c then cur # split_from c [] s else split_from c (cur @ [d]) s)"

definition split_char :: "char \<Rightarrow> string \<Rightarrow> string list" where
  "split_char c s = split_from c [] s"

text \<open>
  \<open>s.split(/\s+/)\<close>: the pieces between the maximal runs of white space; \<open>inrun\<close> says
  that the last character read was white space. A string that begins or ends with
  white space yields an empty first or last piece.
\<close>

fun split_ws_from :: "bool \<Rightarrow> string \<Rightarrow> string \<Rightarrow> string list" where
  "split_ws_from inrun cur [] = [cur]"
| "split_ws_from inrun cur (d # s) =
     (if is_space d
      then (if inrun then split_ws_from True cur s else cur # split_ws_from True [] s)
      else split_ws_from False (cur @ [d]) s)"

definition split_ws :: "string \<Rightarrow> string list" where
  "split_ws s = split_ws_from False [] s"

text \<open>Reading an array element that may be absent: \<open>None\<close> is \<open>undefined\<close>.\<close>

definition element :: "'a list \<Rightarrow> nat \<Rightarrow> 'a option" where
  "element xs i = (if i < length xs then Some (xs ! i) else None)"

text \<open>The value of a character as a digit of the radix \<open>r\<close>.\<close>

definition radix_digit :: "nat \<Rightarrow> char \<Rightarrow> nat option" where
  "radix_digit r c =
     (let n = of_char c :: nat;
          v = (if 48 \<le> n \<and> n \<le> 57 then Some (n - 48)
               else if 97 \<le> n \<and> n \<le> 122 then Some (n - 87)
               else if 65 \<le> n \<and> n \<le> 90 then Some (n - 55)
               else None)
      in case v of None \<Rightarrow> None | Some d \<Rightarrow> if d < r then Some d else None)"

text \<open>The longest prefix of digits, as digit values, and the rest of the string.\<close>

fun digits_prefix :: "nat \<Rightarrow> string \<Rightarrow> nat list \<times> string" where
  "digits_prefix r [] = ([], [])"
| "digits_prefix r (c # s) =
     (case radix_digit r c of
        None \<Rightarrow> ([], c # s)
      | Some d \<Rightarrow> (let (ds, rest) = digits_prefix r s in (d # ds, rest)))"

definition digits_value :: "nat \<Rightarrow> nat list \<Rightarrow> nat" where
  "digits_value r ds = foldl (\<lambda>a d. a * r + d) 0 ds"

text \<open>An optional sign: whether it is a minus, and the rest.\<close>

definition read_sign :: "string \<Rightarrow> bool \<times> string" where
  "read_sign s =
     (case s of
        [] \<Rightarrow> (False, s)
      | c # t \<Rightarrow> if c = CHR ''-'' then (True, t) else if c = CHR ''+'' then (False, t)
                 else (False, s))"

text \<open>
  \<open>parseInt(s)\<close> without a radix: leading white space, an optional sign, an optional
  \<open>0x\<close>, then the longest prefix of digits; NaN when there is no digit.
\<close>

definition parseInt :: "string \<Rightarrow> jsint" where
  "parseInt s =
     (let (neg, s2) = read_sign (trimStart s);
          (r, s3) = (if startsWith s2 ''0x'' \<or> startsWith s2 ''0X'' then (16, drop 2 s2)
                     else (10, s2));
          (ds, rest) = digits_prefix r s3
      in if ds = [] then None
         else Some ((if neg then - 1 else 1) * int (digits_value r ds)))"

text \<open>
  The longest prefix that is a signed decimal literal (\<open>StrDecimalLiteral\<close>): its value,
  rounded to binary64, and the rest of the string, or \<open>None\<close> when no prefix is one.
\<close>

definition exponent_part :: "string \<Rightarrow> int \<times> string" where
  "exponent_part s =
     (case s of
        [] \<Rightarrow> (0, s)
      | c # t \<Rightarrow>
          if c = CHR ''e'' \<or> c = CHR ''E''
          then (let (neg, t2) = read_sign t; (ds, rest) = digits_prefix 10 t2
                in if ds = [] then (0, s)
                   else ((if neg then - 1 else 1) * int (digits_value 10 ds), rest))
          else (0, s))"

definition str_decimal :: "string \<Rightarrow> (jsnum \<times> string) option" where
  "str_decimal s =
     (let (neg, s2) = read_sign s
      in if startsWith s2 ''Infinity'' then Some (if neg then NegInf else PosInf, drop 8 s2)
         else
           (let (ip, r1) = digits_prefix 10 s2;
                (fp, r2) = (case r1 of
                              [] \<Rightarrow> ([], r1)
                            | c # t \<Rightarrow> if c = CHR ''.'' then digits_prefix 10 t else ([], r1))
            in if ip = [] \<and> fp = [] then None
               else
                 (let (e, rest) = exponent_part r2;
                      m = real (digits_value 10 ip) + real (digits_value 10 fp) / 10 ^ length fp;
                      v = (if 0 \<le> e then m * 10 ^ nat e else m / 10 ^ nat (- e))
                  in Some (round64 (if neg then - v else v), rest))))"

definition parseFloat :: "string \<Rightarrow> jsnum" where
  "parseFloat s = (case str_decimal (trimStart s) of None \<Rightarrow> NaN | Some (v, rest) \<Rightarrow> v)"

text \<open>
  \<open>Number(s)\<close>: the whole trimmed string has to be a numeric literal, decimal or
  \<open>0x\<close>, \<open>0o\<close>, \<open>0b\<close>; the empty string is 0.
\<close>

definition non_decimal :: "string \<Rightarrow> jsnum option" where
  "non_decimal s =
     (let r = (if startsWith s ''0x'' \<or> startsWith s ''0X'' then 16
               else if startsWith s ''0o'' \<or> startsWith s ''0O'' then 8
               else if startsWith s ''0b'' \<or> startsWith s ''0B'' then 2
               else (0::nat))
      in if r = 0 then None
         else (let (ds, rest) = digits_prefix r (drop 2 s)
               in if ds \<noteq> [] \<and> rest = [] then Some (round64 (real (digits_value r ds)))
                  else None))"

definition Number :: "string \<Rightarrow> jsnum" where
  "Number s =
     (let t = trim s
      in if t = [] then Num 0
         else (case non_decimal t of
                 Some v \<Rightarrow> v
               | None \<Rightarrow> (case str_decimal t of
                             None \<Rightarrow> NaN
                           | Some (v, rest) \<Rightarrow> if rest = [] then v else NaN)))"

text \<open>
  \<open>parseInt\<close> and \<open>parseFloat\<close> of an array element that may be \<open>undefined\<close>: the
  argument is converted to a string first.
\<close>

definition ToString :: "string option \<Rightarrow> string" where
  "ToString a = (case a of None \<Rightarrow> ''undefined'' | Some s \<Rightarrow> s)"

section \<open>TopologyParser\<close>

datatype js_error = Error string | TypeError

text \<open>The test \<open>line && !line.startsWith('#')\<close> on a trimmed line.\<close>

definition significant :: "string \<Rightarrow> bool" where
  "significant line = (line \<noteq> [] \<and> \<not> startsWith line ''#'')"

definition parse_header :: "string \<Rightarrow> TopologyHeader" where
  "parse_header line =
     (let parts = map Number (split_ws line)
      in \<lparr> numParticles = element parts 0,
           numStrands = element parts 1,
           maxSpringsPerParticle = element parts 2,
           repeatedPatchesPerParticle = element parts 3 \<rparr>)"

definition parse_vec :: "string list \<Rightarrow> vec3" where
  "parse_vec parts =
     \<lparr> vec_x = parseFloat (ToString (element parts 4)),
       vec_y = parseFloat (ToString (element parts 5)),
       vec_z = parseFloat (ToString (element parts 6)) \<rparr>"

definition parse_patch :: "string list \<Rightarrow> PatchTemplate" where
  "parse_patch parts =
     \<lparr> patch_id = parseInt (ToString (element parts 1)),
       patch_color = parseInt (ToString (element parts 2)),
       patch_strength = parseFloat (ToString (element parts 3)),
       patch_position = parse_vec parts \<rparr>"

definition parse_spring :: "string list \<Rightarrow> SpringTemplate" where
  "parse_spring parts =
     \<lparr> spring_id = parseInt (ToString (element parts 1)),
       spring_stiffness = parseFloat (ToString (element parts 2)),
       spring_restLength = parseFloat (ToString (element parts 3)),
       spring_position = parse_vec parts \<rparr>"

text \<open>
  The loop \<open>while (idx < parts.length)\<close> over the tokens that follow the patch ids: they
  are taken two at a time, and a last token without a partner ends the loop.
\<close>

fun connection_pairs :: "string list \<Rightarrow> Connection list" where
  "connection_pairs (a # b # rest) =
     \<lparr> particleIndex = parseInt a, springIndex = parseInt b \<rparr> # connection_pairs rest"
| "connection_pairs _ = []"

text \<open>
  A particle row; \<open>k\<close> is \<open>topology.particles.length\<close>. The loop
  \<open>for (let i = 0; i < numPatches; i++)\<close> runs \<open>numPatches\<close> times, and not at all when
  \<open>numPatches\<close> is NaN or negative; it reads \<open>parts[5 + i]\<close>, present or not.
\<close>

definition parse_particle :: "nat \<Rightarrow> string list \<Rightarrow> ParticleRecord" where
  "parse_particle k parts =
     (let numPatches = parseInt (ToString (element parts 4));
          n = (case numPatches of None \<Rightarrow> 0 | Some m \<Rightarrow> nat m)
      in \<lparr> rec_index = k,
           rec_type = parseInt (ToString (element parts 0)),
           rec_strand = parseInt (ToString (element parts 1)),
           rec_radius = parseFloat (ToString (element parts 2)),
           rec_mass = parseFloat (ToString (element parts 3)),
           rec_patches = map (\<lambda>i. parseInt (ToString (element parts (5 + i)))) [0..<n],
           rec_connections = connection_pairs (drop (5 + n) parts) \<rparr>)"

text \<open>The body of the second loop of \<open>TopologyParser.parse\<close>, for one line.\<close>

definition topology_line :: "TopologyDocument \<Rightarrow> string \<Rightarrow> TopologyDocument" where
  "topology_line topology line =
     (if significant line
      then (let parts = split_ws line
            in if element parts 0 = Some ''iP''
               then topology\<lparr> topo_patches := topo_patches topology @ [parse_patch parts] \<rparr>
               else if element parts 0 = Some ''iS''
               then topology\<lparr> topo_springs := topo_springs topology @ [parse_spring parts] \<rparr>
               else topology\<lparr> topo_particles := topo_particles topology @
                                [parse_particle (length (topo_particles topology)) parts] \<rparr>)
      else topology)"

text \<open>
  \<open>TopologyParser.parse\<close>. The first loop skips the lines that are not significant and
  stops at the first significant one, the header; without one,
  \<open>throw new Error('Invalid topology file: no header found')\<close>.
\<close>

definition lines_of :: "string \<Rightarrow> string list" where
  "lines_of content = map trim (split_char (CHR 0x0A) content)"

definition TopologyParser_parse :: "string \<Rightarrow> js_error + TopologyDocument" where
  "TopologyParser_parse content =
     (case dropWhile (\<lambda>line. \<not> significant line) (lines_of content) of
        [] \<Rightarrow> Inl (Error ''Invalid topology file: no header found'')
      | h # rest \<Rightarrow>
          Inr (foldl topology_line
                 \<lparr> topo_header = parse_header h, topo_patches = [], topo_springs = [],
                   topo_particles = [] \<rparr>
                 rest))"

section \<open>ConfigurationParser\<close>

text \<open>\<open>line.split('=')[1].trim()\<close>: a method call on \<open>undefined\<close> throws a TypeError.\<close>

definition after_equals :: "string \<Rightarrow> js_error + string" where
  "after_equals line =
     (case element (split_char (CHR ''='') line) 1 of
        None \<Rightarrow> Inl TypeError
      | Some v \<Rightarrow> Inr (trim v))"

definition three_floats :: "string \<Rightarrow> jsnum option \<times> jsnum option \<times> jsnum option" where
  "three_floats v =
     (let ps = map parseFloat (split_ws v) in (element ps 0, element ps 1, element ps 2))"

text \<open>
  The three header tests, each on the document and the cursor \<open>currentLine\<close>. The
  element \<open>lines[currentLine]\<close> is \<open>undefined\<close> beyond the end of the array, and
  \<open>undefined.startsWith\<close> throws a TypeError.
  \<^verbatim>\<open>
  if (lines[currentLine].startsWith('t =')) {
      config.timestep = parseInt(lines[currentLine].split('=')[1].trim());
      currentLine++;
  }
  \<close>
\<close>

definition header_t ::
  "string list \<Rightarrow> ConfigurationDocument \<times> nat \<Rightarrow> js_error + ConfigurationDocument \<times> nat" where
  "header_t lines st =
     (case st of (config, currentLine) \<Rightarrow>
        (case element lines currentLine of
           None \<Rightarrow> Inl TypeError
         | Some line \<Rightarrow>
             if startsWith line ''t =''
             then (case after_equals line of
                     Inl e \<Rightarrow> Inl e
                   | Inr v \<Rightarrow> Inr (config\<lparr> conf_timestep := parseInt v \<rparr>, currentLine + 1))
             else Inr (config, currentLine)))"

definition header_b ::
  "string list \<Rightarrow> ConfigurationDocument \<times> nat \<Rightarrow> js_error + ConfigurationDocument \<times> nat" where
  "header_b lines st =
     (case st of (config, currentLine) \<Rightarrow>
        (case element lines currentLine of
           None \<Rightarrow> Inl TypeError
         | Some line \<Rightarrow>
             if startsWith line ''b =''
             then (case after_equals line of
                     Inl e \<Rightarrow> Inl e
                   | Inr v \<Rightarrow>
                       (case three_floats v of (a, b, c) \<Rightarrow>
                          Inr (config\<lparr> conf_box := \<lparr> box_x = a, box_y = b, box_z = c \<rparr> \<rparr>,
                               currentLine + 1)))
             else Inr (config, currentLine)))"

definition header_E ::
  "string list \<Rightarrow> ConfigurationDocument \<times> nat \<Rightarrow> js_error + ConfigurationDocument \<times> nat" where
  "header_E lines st =
     (case st of (config, currentLine) \<Rightarrow>
        (case element lines currentLine of
           None \<Rightarrow> Inl TypeError
         | Some line \<Rightarrow>
             if startsWith line ''E =''
             then (case after_equals line of
                     Inl e \<Rightarrow> Inl e
                   | Inr v \<Rightarrow>
                       (case three_floats v of (a, b, c) \<Rightarrow>
                          Inr (config\<lparr> conf_energy := \<lparr> energy_total = a, energy_potential = b,
                                                        energy_kinetic = c \<rparr> \<rparr>,
                               currentLine + 1)))
             else Inr (config, currentLine)))"

text \<open>The body of the data loop, for one line.\<close>

definition vec_at :: "jsnum list \<Rightarrow> nat \<Rightarrow> vec3" where
  "vec_at parts i = \<lparr> vec_x = parts ! i, vec_y = parts ! (i + 1), vec_z = parts ! (i + 2) \<rparr>"

definition configuration_line :: "ConfigurationDocument \<Rightarrow> string \<Rightarrow> ConfigurationDocument" where
  "configuration_line config line =
     (if significant line
      then (let parts = map parseFloat (split_ws line)
            in if 15 \<le> length parts
               then config\<lparr> conf_nucleotides := conf_nucleotides config @
                              [\<lparr> nuc_index = length (conf_nucleotides config),
                                 nuc_position = vec_at parts 0,
                                 nuc_baseVector = vec_at parts 3,
                                 nuc_normalVector = vec_at parts 6,
                                 nuc_velocity = vec_at parts 9,
                                 nuc_angularVelocity = vec_at parts 12 \<rparr>] \<rparr>
               else config)
      else config)"

definition default_configuration :: ConfigurationDocument where
  "default_configuration =
     \<lparr> conf_timestep = Some 0,
       conf_box = \<lparr> box_x = Some (Num 0), box_y = Some (Num 0), box_z = Some (Num 0) \<rparr>,
       conf_energy = \<lparr> energy_total = Some (Num 0), energy_potential = Some (Num 0),
                       energy_kinetic = Some (Num 0) \<rparr>,
       conf_nucleotides = [] \<rparr>"

definition ConfigurationParser_parse :: "string \<Rightarrow> js_error + ConfigurationDocument" where
  "ConfigurationParser_parse content =
     (let lines = lines_of content
      in case header_t lines (default_configuration, 0) of
           Inl e \<Rightarrow> Inl e
         | Inr st1 \<Rightarrow>
             (case header_b lines st1 of
                Inl e \<Rightarrow> Inl e
              | Inr st2 \<Rightarrow>
                  (case header_E lines st2 of
                     Inl e \<Rightarrow> Inl e
                   | Inr (config, currentLine) \<Rightarrow>
                       Inr (foldl configuration_line config (drop currentLine lines)))))"

section \<open>DataCombiner\<close>

text \<open>
  The diagnostic of \<open>combine\<close>: \<open>console.warn\<close> is called when
  \<open>topology.header.numParticles !== configuration.nucleotides.length\<close>. It does not
  influence the result.
\<close>

definition count_mismatch :: "TopologyDocument \<Rightarrow> ConfigurationDocument \<Rightarrow> bool" where
  "count_mismatch topology configuration =
     (numParticles (topo_header topology) \<noteq>
        Some (Num (real (length (conf_nucleotides configuration)))))"

text \<open>
  \<open>topoParticle.patches.map(patchId => topology.patches.find(p => p.id === patchId) || null)
  .filter(p => p !== null)\<close>
\<close>

definition resolve_patches :: "PatchTemplate list \<Rightarrow> jsint list \<Rightarrow> PatchTemplate list" where
  "resolve_patches templates ids =
     List.map_filter (\<lambda>patchId. find (\<lambda>p. js_eq (patch_id p) patchId) templates) ids"

text \<open>The body of the first loop of \<open>combine\<close>, for the index \<open>i\<close>.\<close>

definition merge_particle ::
  "TopologyDocument \<Rightarrow> ConfigurationDocument \<Rightarrow> nat \<Rightarrow> vec3 Particle" where
  "merge_particle topology configuration i =
     (let topoParticle = topo_particles topology ! i;
          configNucleotide = conf_nucleotides configuration ! i
      in \<lparr> index = i,
           ptype = rec_type topoParticle,
           strand = rec_strand topoParticle,
           radius = rec_radius topoParticle,
           mass = rec_mass topoParticle,
           patches = resolve_patches (topo_patches topology) (rec_patches topoParticle),
           connections = rec_connections topoParticle,
           position = nuc_position configNucleotide,
           baseVector = nuc_baseVector configNucleotide,
           normalVector = nuc_normalVector configNucleotide,
           velocity = nuc_velocity configNucleotide,
           angularVelocity = nuc_angularVelocity configNucleotide \<rparr>)"

text \<open>
  The body of the inner bond loop: the bond list after the connection \<open>connection\<close> of
  the particle with index \<open>idx\<close> has been looked at, \<open>n\<close> being \<open>particles.length\<close>.
  \<^verbatim>\<open>
  const existingBond = bonds.find(b =>
      (b.from === particle.index && b.to === connection.particleIndex) ||
      (b.from === connection.particleIndex && b.to === particle.index));
  if (!existingBond && connection.particleIndex < particles.length) {
      const spring = topology.springs.find(s => s.id === connection.springIndex);
      bonds.push({ from: particle.index, to: connection.particleIndex, spring: spring || null });
  }
  \<close>
\<close>

definition matches_bond :: "nat \<Rightarrow> jsint \<Rightarrow> Bond \<Rightarrow> bool" where
  "matches_bond idx peer b =
     ((js_eq (bond_from b) (Some (int idx)) \<and> js_eq (bond_to b) peer) \<or>
      (js_eq (bond_from b) peer \<and> js_eq (bond_to b) (Some (int idx))))"

definition add_connection ::
  "SpringTemplate list \<Rightarrow> nat \<Rightarrow> nat \<Rightarrow> Bond list \<Rightarrow> Connection \<Rightarrow> Bond list" where
  "add_connection springs n idx bs connection =
     (let existingBond = find (matches_bond idx (particleIndex connection)) bs
      in if existingBond = None \<and> js_lt_length (particleIndex connection) n
         then bs @ [\<lparr> bond_from = Some (int idx),
                      bond_to = particleIndex connection,
                      bond_spring = find (\<lambda>s. js_eq (spring_id s) (springIndex connection)) springs \<rparr>]
         else bs)"

definition derive_bonds :: "SpringTemplate list \<Rightarrow> 'v Particle list \<Rightarrow> Bond list" where
  "derive_bonds springs ps =
     foldl (\<lambda>bs particle. foldl (add_connection springs (length ps) (index particle)) bs
                             (connections particle))
       [] ps"

definition combine :: "TopologyDocument \<Rightarrow> ConfigurationDocument \<Rightarrow> vec3 StructureGraph" where
  "combine topology configuration =
     (let count = min (length (topo_particles topology)) (length (conf_nucleotides configuration));
          ps = map (merge_particle topology configuration) [0..<count]
      in \<lparr> particles = ps,
           bonds = derive_bonds (topo_springs topology) ps,
           metadata = \<lparr> meta_timestep = conf_timestep configuration,
                        meta_box = conf_box configuration,
                        meta_energy = conf_energy configuration,
                        meta_numStrands = numStrands (topo_header topology) \<rparr> \<rparr>)"

section \<open>First discovery of bonds\<close>

text \<open>
  The description to compare \<open>derive_bonds\<close> with. The declared connections in
  discovery order, particles in index order and the connections of each in declaration
  order, each with the index of the declaring particle:
\<close>

definition declared_connections :: "TopologyDocument \<Rightarrow> nat \<Rightarrow> (nat \<times> Connection) list" where
  "declared_connections topology count =
     concat (map (\<lambda>i. map (Pair i) (rec_connections (topo_particles topology ! i))) [0..<count])"

text \<open>Two declarations name the same unordered pair of endpoints.\<close>

definition same_ends :: "nat \<times> Connection \<Rightarrow> nat \<times> Connection \<Rightarrow> bool" where
  "same_ends d e =
     ((Some (int (fst d)) = Some (int (fst e)) \<and> particleIndex (snd d) = particleIndex (snd e)) \<or>
      (Some (int (fst d)) = particleIndex (snd e) \<and> particleIndex (snd d) = Some (int (fst e))))"

text \<open>The declarations whose peer index is below the particle count.\<close>

definition below_count :: "nat \<Rightarrow> nat \<times> Connection \<Rightarrow> bool" where
  "below_count count d = js_lt_length (particleIndex (snd d)) count"

text \<open>The declarations that no earlier declaration of the list shares its ends with.\<close>

definition first_discovered :: "(nat \<times> Connection) list \<Rightarrow> (nat \<times> Connection) list" where
  "first_discovered ds =
     map (\<lambda>k. ds ! k)
       (filter (\<lambda>k. \<not> (\<exists>e \<in> set (take k ds). same_ends e (ds ! k))) [0..<length ds])"

text \<open>The bond of a declaration, oriented from the declaring particle to the peer.\<close>

definition bond_of :: "SpringTemplate list \<Rightarrow> nat \<times> Connection \<Rightarrow> Bond" where
  "bond_of springs d =
     \<lparr> bond_from = Some (int (fst d)),
       bond_to = particleIndex (snd d),
       bond_spring = find (\<lambda>s. js_eq (spring_id s) (springIndex (snd d))) springs \<rparr>"

text \<open>The bond joins the particles \<open>a\<close> and \<open>b\<close>, in either orientation.\<close>

definition joins :: "int \<Rightarrow> int \<Rightarrow> Bond \<Rightarrow> bool" where
  "joins a b bd =
     ((bond_from bd = Some a \<and> bond_to bd = Some b) \<or>
      (bond_from bd = Some b \<and> bond_to bd = Some a))"

text \<open>
  The inner loop body as a function of the declaration, for the comparison with
  \<open>first_discovered\<close>.
\<close>

definition step :: "SpringTemplate list \<Rightarrow> nat \<Rightarrow> Bond list \<Rightarrow> nat \<times> Connection \<Rightarrow> Bond list" where
  "step springs n bs d = add_connection springs n (fst d) bs (snd d)"

section \<open>Header lines\<close>





section \<open>Example files\<close>

text \<open>The topology of the repository's README, without its comment lines but one.\<close>

definition readme_topology :: string where
  "readme_topology =
     ''4 2 1 1\<newline># Patch info\<newline>iP 0 -21 100 0 5 0\<newline>iP 1 21 100 0 -5 0\<newline>\<newline>'' @
     ''iS 0 100 1 5 0 0\<newline>iS 1 100 1 -5 0 0\<newline>\<newline>'' @
     ''-5 0 5 1 1 0 1 0\<newline>-5 0 5 1 1 0 0 1 2 0\<newline>-5 0 5 1 1 0 1 1\<newline>-5 1 5 1 1 1\<newline>''"

definition readme_patch :: "int \<Rightarrow> int \<Rightarrow> real \<Rightarrow> PatchTemplate" where
  "readme_patch i col py =
     \<lparr> patch_id = Some i, patch_color = Some col, patch_strength = Num 100,
       patch_position = \<lparr> vec_x = Num 0, vec_y = Num py, vec_z = Num 0 \<rparr> \<rparr>"

definition readme_spring :: "int \<Rightarrow> real \<Rightarrow> SpringTemplate" where
  "readme_spring i px =
     \<lparr> spring_id = Some i, spring_stiffness = Num 100, spring_restLength = Num 1,
       spring_position = \<lparr> vec_x = Num px, vec_y = Num 0, vec_z = Num 0 \<rparr> \<rparr>"

definition readme_particle :: "nat \<Rightarrow> int \<Rightarrow> int \<Rightarrow> (int \<times> int) list \<Rightarrow> ParticleRecord" where
  "readme_particle k s p cs =
     \<lparr> rec_index = k, rec_type = Some (- 5), rec_strand = Some s, rec_radius = Num 5,
       rec_mass = Num 1, rec_patches = [Some p],
       rec_connections = map (\<lambda>(a, b). \<lparr> particleIndex = Some a, springIndex = Some b \<rparr>) cs \<rparr>"

definition example_topology :: TopologyDocument where
  "example_topology =
     \<lparr> topo_header = \<lparr> numParticles = Some (Num 4), numStrands = Some (Num 2),
                       maxSpringsPerParticle = Some (Num 1),
                       repeatedPatchesPerParticle = Some (Num 1) \<rparr>,
       topo_patches = [readme_patch 0 (- 21) 5, readme_patch 1 21 (- 5)],
       topo_springs = [readme_spring 0 5, readme_spring 1 (- 5)],
       topo_particles = [readme_particle 0 0 0 [(1, 0)], readme_particle 1 0 0 [(0, 1), (2, 0)],
                         readme_particle 2 0 0 [(1, 1)], readme_particle 3 1 1 []] \<rparr>"

text \<open>A configuration for it: three rows of fifteen numbers and a row of twelve.\<close>

definition example_configuration_text :: string where
  "example_configuration_text =
     ''t = 7\<newline>b = 10 10 10\<newline>E = 0 0 0\<newline>'' @
     ''1 2 3 1 0 0 0 0 1 0 0 0 0 0 0\<newline>'' @
     ''15 2 3 1 0 0 0 0 1 0 0 0 0 0 0\<newline>'' @
     ''4 5 6 1 0 0 0 0 1 0 0 0\<newline>'' @
     ''-1 2 3 1 0 0 0 0 1 0 0 0 0 0 0\<newline>''"

definition example_nucleotide :: "nat \<Rightarrow> real \<Rightarrow> NucleotideState" where
  "example_nucleotide k px =
     \<lparr> nuc_index = k,
       nuc_position = \<lparr> vec_x = Num px, vec_y = Num 2, vec_z = Num 3 \<rparr>,
       nuc_baseVector = \<lparr> vec_x = Num 1, vec_y = Num 0, vec_z = Num 0 \<rparr>,
       nuc_normalVector = \<lparr> vec_x = Num 0, vec_y = Num 0, vec_z = Num 1 \<rparr>,
       nuc_velocity = \<lparr> vec_x = Num 0, vec_y = Num 0, vec_z = Num 0 \<rparr>,
       nuc_angularVelocity = \<lparr> vec_x = Num 0, vec_y = Num 0, vec_z = Num 0 \<rparr> \<rparr>"

definition example_configuration :: ConfigurationDocument where
  "example_configuration =
     \<lparr> conf_timestep = Some 7,
       conf_box = \<lparr> box_x = Some (Num 10), box_y = Some (Num 10), box_z = Some (Num 10) \<rparr>,
       conf_energy = \<lparr> energy_total = Some (Num 0), energy_potential = Some (Num 0),
                       energy_kinetic = Some (Num 0) \<rparr>,
       conf_nucleotides = [example_nucleotide 0 1, example_nucleotide 1 15,
                           example_nucleotide 2 (- 1)] \<rparr>"

text \<open>A topology of one particle that names the neighbour \<open>-1\<close>, and a configuration for it.\<close>

definition blank_neighbour_topology :: string where
  "blank_neighbour_topology = ''1 1 1 1\<newline>-5 0 5 1 0 -1 0\<newline>''"

definition one_row_configuration :: string where
  "one_row_configuration =
     ''t = 0\<newline>b = 10 10 10\<newline>E = 0 0 0\<newline>1 2 3 1 0 0 0 0 1 0 0 0 0 0 0\<newline>''"

section \<open>The store of vectors\<close>

text \<open>
  The renderer holds references to \<open>BABYLON.Vector3\<close> objects and writes to some of
  them, so these objects live in a store: an address is a natural number, \<open>cells\<close> gives
  the vector at an address and \<open>next_free\<close> is the first address never handed out.
  \<open>new_vec\<close> is \<open>new BABYLON.Vector3(x, y, z)\<close>, \<open>clone\<close> is \<open>v.clone()\<close>, and
  \<open>set_vec\<close> is the assignment of the three components of an existing vector.
\<close>

type_synonym addr = nat

record heap =
  cells :: "addr \<Rightarrow> vec3"
  next_free :: addr

definition new_vec :: "vec3 \<Rightarrow> heap \<Rightarrow> addr \<times> heap" where
  "new_vec v h =
     (next_free h, \<lparr> cells = (cells h)(next_free h := v), next_free = Suc (next_free h) \<rparr>)"

definition clone :: "addr \<Rightarrow> heap \<Rightarrow> addr \<times> heap" where
  "clone a h = new_vec (cells h a) h"

definition set_vec :: "addr \<Rightarrow> vec3 \<Rightarrow> heap \<Rightarrow> heap" where
  "set_vec a v h = h\<lparr> cells := (cells h)(a := v) \<rparr>"

definition zero_vec :: vec3 where
  "zero_vec = \<lparr> vec_x = Num 0, vec_y = Num 0, vec_z = Num 0 \<rparr>"

text \<open>
  The vectors that \<open>combine\<close> creates with \<open>new BABYLON.Vector3\<close>, five for each
  particle, placed in the store: the graph as the renderer receives it.
\<close>

definition store_particle :: "vec3 Particle \<Rightarrow> heap \<Rightarrow> addr Particle \<times> heap" where
  "store_particle p h =
     (let (a1, h1) = new_vec (position p) h;
          (a2, h2) = new_vec (baseVector p) h1;
          (a3, h3) = new_vec (normalVector p) h2;
          (a4, h4) = new_vec (velocity p) h3;
          (a5, h5) = new_vec (angularVelocity p) h4
      in (\<lparr> index = index p, ptype = ptype p, strand = strand p, radius = radius p,
             mass = mass p, patches = patches p, connections = connections p,
             position = a1, baseVector = a2, normalVector = a3, velocity = a4,
             angularVelocity = a5 \<rparr>, h5))"

fun store_particles :: "vec3 Particle list \<Rightarrow> heap \<Rightarrow> addr Particle list \<times> heap" where
  "store_particles [] h = ([], h)"
| "store_particles (p # ps) h =
     (let (q, h1) = store_particle p h; (qs, h2) = store_particles ps h1 in (q # qs, h2))"

definition store_graph :: "vec3 StructureGraph \<Rightarrow> heap \<Rightarrow> addr StructureGraph \<times> heap" where
  "store_graph g h =
     (let (qs, h1) = store_particles (particles g) h
      in (\<lparr> particles = qs, bonds = bonds g, metadata = metadata g \<rparr>, h1))"

text \<open>Reading a stored graph back: every vector reference replaced by its value.\<close>

definition deref_particle :: "heap \<Rightarrow> addr Particle \<Rightarrow> vec3 Particle" where
  "deref_particle h p =
     \<lparr> index = index p, ptype = ptype p, strand = strand p, radius = radius p,
       mass = mass p, patches = patches p, connections = connections p,
       position = cells h (position p), baseVector = cells h (baseVector p),
       normalVector = cells h (normalVector p), velocity = cells h (velocity p),
       angularVelocity = cells h (angularVelocity p) \<rparr>"

definition deref_graph :: "heap \<Rightarrow> addr StructureGraph \<Rightarrow> vec3 StructureGraph" where
  "deref_graph h g =
     \<lparr> particles = map (deref_particle h) (particles g), bonds = bonds g,
       metadata = metadata g \<rparr>"

section \<open>DNARenderer: the periodic box\<close>

text \<open>
  The part of the renderer's state that positions depend on. A nucleotide instance is a
  mesh with its own position vector and, in \<open>metadata\<close>, the particle it draws; a
  selection mesh is kept in a \<open>Map\<close> under the particle index and has its own position
  vector; a line system holds the end points of its lines, copied when it is created.
  The renderer is taken after \<open>init\<close>; the Babylon scene, the placement of the
  camera, the materials and the box mesh are not represented.
\<close>

record mesh_instance =
  inst_position :: addr
  inst_particle :: "addr Particle"

record renderer =
  store :: heap
  data :: "addr StructureGraph option"
  boxOffset :: addr
  originalParticlePositions :: "addr list"
  nucleotideInstances :: "mesh_instance list"
  selectionMeshes :: "nat \<rightharpoonup> addr"
  bondMeshes :: "(vec3 \<times> vec3) list list"

text \<open>The state that the constructor leaves, in a store with nothing else.\<close>

definition new_renderer :: renderer where
  "new_renderer =
     \<lparr> store = \<lparr> cells = (\<lambda>a. zero_vec), next_free = 1 \<rparr>,
       data = None, boxOffset = 0, originalParticlePositions = [],
       nucleotideInstances = [], selectionMeshes = Map.empty, bondMeshes = [] \<rparr>"

text \<open>
  \<open>renderNucleotides\<close> groups the particles by \<open>particle.strand\<close> in an object and walks
  \<open>Object.keys\<close> of it: the keys that are array indices come first, in ascending order,
  and the other keys (negative numbers, NaN) follow in the order of their creation.
\<close>

fun first_occurrences :: "'a list \<Rightarrow> 'a list \<Rightarrow> 'a list" where
  "first_occurrences seen [] = seen"
| "first_occurrences seen (k # ks) =
     (if k \<in> set seen then first_occurrences seen ks else first_occurrences (seen @ [k]) ks)"

definition array_index :: "jsint \<Rightarrow> bool" where
  "array_index k = (case k of None \<Rightarrow> False | Some n \<Rightarrow> 0 \<le> n \<and> n < 4294967295)"

definition strand_keys :: "'v Particle list \<Rightarrow> jsint list" where
  "strand_keys ps =
     (let ks = first_occurrences [] (map strand ps)
      in map Some (sort (List.map_filter (\<lambda>k. if array_index k then k else None) ks)) @
         filter (\<lambda>k. \<not> array_index k) ks)"

definition strand_groups :: "'v Particle list \<Rightarrow> 'v Particle list" where
  "strand_groups ps = concat (map (\<lambda>k. filter (\<lambda>p. strand p = k) ps) (strand_keys ps))"

text \<open>
  One instance for each particle of the list, in its order:
  \<open>instance.position = particle.position.clone(); instance.metadata = { particle }\<close>.
\<close>

fun make_instances :: "addr Particle list \<Rightarrow> heap \<Rightarrow> mesh_instance list \<times> heap" where
  "make_instances [] h = ([], h)"
| "make_instances (p # ps) h =
     (let (a, h1) = clone (position p) h;
          (rest, h2) = make_instances ps h1
      in (\<lparr> inst_position = a, inst_particle = p \<rparr> # rest, h2))"

definition renderNucleotides :: "addr Particle list \<Rightarrow> heap \<Rightarrow> mesh_instance list \<times> heap" where
  "renderNucleotides ps h = (if ps = [] then ([], h) else make_instances (strand_groups ps) h)"

text \<open>\<open>particles[k]\<close> for a number \<open>k\<close>: \<open>undefined\<close> unless \<open>k\<close> is an index of the array.\<close>

definition at_number :: "'a list \<Rightarrow> jsint \<Rightarrow> 'a option" where
  "at_number xs k =
     (case k of None \<Rightarrow> None
      | Some n \<Rightarrow> if 0 \<le> n \<and> n < int (length xs) then Some (xs ! nat n) else None)"

text \<open>
  \<open>renderBonds\<close>: the lines between the positions of the two particles of each bond,
  for the bonds whose two particles exist. The source creates the line system twice.
\<close>

definition renderBonds ::
  "Bond list \<Rightarrow> addr Particle list \<Rightarrow> heap \<Rightarrow> (vec3 \<times> vec3) list list" where
  "renderBonds bs ps h =
     (if bs = [] then []
      else (let points =
                  List.map_filter
                    (\<lambda>bond. case (at_number ps (bond_from bond), at_number ps (bond_to bond)) of
                               (Some fromParticle, Some toParticle) \<Rightarrow>
                                  Some (cells h (position fromParticle), cells h (position toParticle))
                             | _ \<Rightarrow> None)
                    bs
            in if points \<noteq> [] then [points, points] else []))"

fun clone_all :: "addr list \<Rightarrow> heap \<Rightarrow> addr list \<times> heap" where
  "clone_all [] h = ([], h)"
| "clone_all (a # as) h =
     (let (b, h1) = clone a h; (bs, h2) = clone_all as h1 in (b # bs, h2))"

text \<open>
  \<open>loadData\<close>: the graph is kept by reference, the scene is cleared, the offset is a new
  zero vector, the original positions are clones of the particle positions, and the
  instances and bond lines are created.
\<close>

definition loadData :: "addr StructureGraph \<Rightarrow> renderer \<Rightarrow> renderer" where
  "loadData combinedData r =
     (let (off, h1) = new_vec zero_vec (store r);
          (origs, h2) = clone_all (map position (particles combinedData)) h1;
          (insts, h3) = renderNucleotides (particles combinedData) h2
      in \<lparr> store = h3,
           data = Some combinedData,
           boxOffset = off,
           originalParticlePositions = origs,
           nucleotideInstances = insts,
           selectionMeshes = Map.empty,
           bondMeshes = renderBonds (bonds combinedData) (particles combinedData) h3 \<rparr>)"

text \<open>A box side used as a number: \<open>undefined\<close> becomes NaN.\<close>

definition ToNumber :: "jsnum option \<Rightarrow> jsnum" where
  "ToNumber v = (case v of None \<Rightarrow> NaN | Some n \<Rightarrow> n)"

text \<open>
  The new position of an instance: \<open>wrap(originalPos.x + this.boxOffset.x, box.x)\<close>
  and likewise for \<open>y\<close> and \<open>z\<close>.
\<close>

definition wrapped_position :: "BoxSpec \<Rightarrow> vec3 \<Rightarrow> vec3 \<Rightarrow> vec3" where
  "wrapped_position box originalPos offset =
     \<lparr> vec_x = wrap (js_add (vec_x originalPos) (vec_x offset)) (ToNumber (box_x box)),
       vec_y = wrap (js_add (vec_y originalPos) (vec_y offset)) (ToNumber (box_y box)),
       vec_z = wrap (js_add (vec_z originalPos) (vec_z offset)) (ToNumber (box_z box)) \<rparr>"

text \<open>
  The loop \<open>this.nucleotideInstances.forEach((instance, i) => ...)\<close>, from the index
  \<open>i\<close> on. \<open>this.originalParticlePositions[i]\<close> is \<open>undefined\<close> beyond the end of that
  array, and reading \<open>originalPos.x\<close> then throws a TypeError. The selection mesh of the
  particle, if there is one, copies the new position of the instance.
\<close>

fun update_instances ::
  "BoxSpec \<Rightarrow> addr \<Rightarrow> addr list \<Rightarrow> (nat \<rightharpoonup> addr) \<Rightarrow> nat \<Rightarrow> mesh_instance list \<Rightarrow> heap \<Rightarrow> js_error + heap"
where
  "update_instances box off origs sel i [] h = Inr h"
| "update_instances box off origs sel i (inst # rest) h =
     (case element origs i of
        None \<Rightarrow> Inl TypeError
      | Some originalPos \<Rightarrow>
          (let h1 = set_vec (inst_position inst)
                      (wrapped_position box (cells h originalPos) (cells h off)) h;
               h2 = (case sel (index (inst_particle inst)) of
                       None \<Rightarrow> h1
                     | Some selMesh \<Rightarrow> set_vec selMesh (cells h1 (inst_position inst)) h1)
           in update_instances box off origs sel (i + 1) rest h2))"

text \<open>
  The end points of the bond lines, read from the instances:
  \<open>this.nucleotideInstances.find(inst => inst.metadata.particle.index === bond.from)\<close>.
\<close>

definition instance_of :: "mesh_instance list \<Rightarrow> jsint \<Rightarrow> mesh_instance option" where
  "instance_of insts k = find (\<lambda>inst. js_eq (Some (int (index (inst_particle inst)))) k) insts"

definition bond_points :: "Bond list \<Rightarrow> mesh_instance list \<Rightarrow> heap \<Rightarrow> (vec3 \<times> vec3) list" where
  "bond_points bs insts h =
     List.map_filter
       (\<lambda>bond. case (instance_of insts (bond_from bond), instance_of insts (bond_to bond)) of
                  (Some fromParticle, Some toParticle) \<Rightarrow>
                     Some (cells h (inst_position fromParticle), cells h (inst_position toParticle))
                | _ \<Rightarrow> None)
       bs"

text \<open>
  \<open>updateParticlePositions\<close>. The guard \<open>!this.data || !this.data.metadata.box\<close> is
  true only without data: the box of a graph is an object.
\<close>

definition updateParticlePositions :: "renderer \<Rightarrow> js_error + renderer" where
  "updateParticlePositions r =
     (case data r of
        None \<Rightarrow> Inr r
      | Some g \<Rightarrow>
          (case update_instances (meta_box (metadata g)) (boxOffset r)
                  (originalParticlePositions r) (selectionMeshes r) 0
                  (nucleotideInstances r) (store r) of
             Inl e \<Rightarrow> Inl e
           | Inr h \<Rightarrow>
               Inr (r\<lparr> store := h,
                       bondMeshes :=
                         (if bondMeshes r \<noteq> []
                          then (let points = bond_points (bonds g) (nucleotideInstances r) h
                                in if points \<noteq> [] then [points] else [])
                          else bondMeshes r) \<rparr>)))"

text \<open>
  \<open>shiftParticles(axis, amount)\<close>: the component of the offset named by \<open>axis\<close> grows by
  \<open>amount\<close>, in place, and the positions are recomputed.
\<close>

definition add_to_axis :: "string \<Rightarrow> jsnum \<Rightarrow> vec3 \<Rightarrow> vec3" where
  "add_to_axis axis amount v =
     (let v1 = (if axis = ''x'' then v\<lparr> vec_x := js_add (vec_x v) amount \<rparr> else v);
          v2 = (if axis = ''y'' then v1\<lparr> vec_y := js_add (vec_y v1) amount \<rparr> else v1)
      in if axis = ''z'' then v2\<lparr> vec_z := js_add (vec_z v2) amount \<rparr> else v2)"

definition shiftParticles :: "string \<Rightarrow> jsnum \<Rightarrow> renderer \<Rightarrow> js_error + renderer" where
  "shiftParticles axis amount r =
     (case data r of
        None \<Rightarrow> Inr r
      | Some g \<Rightarrow>
          updateParticlePositions
            (r\<lparr> store := set_vec (boxOffset r)
                            (add_to_axis axis amount (cells (store r) (boxOffset r))) (store r) \<rparr>))"

text \<open>
  \<open>highlightNucleotide(particleIndex, highlight)\<close>: removing a selection mesh, or
  creating one at a clone of the position of the instance of that particle.
\<close>

definition highlightNucleotide :: "nat \<Rightarrow> bool \<Rightarrow> renderer \<Rightarrow> renderer" where
  "highlightNucleotide pIndex highlight r =
     (if \<not> highlight then r\<lparr> selectionMeshes := (selectionMeshes r)(pIndex := None) \<rparr>
      else if selectionMeshes r pIndex \<noteq> None then r
      else (case find (\<lambda>inst. index (inst_particle inst) = pIndex) (nucleotideInstances r) of
              None \<Rightarrow> r
            | Some inst \<Rightarrow>
                (let (a, h) = clone (inst_position inst) (store r)
                 in r\<lparr> store := h,
                        selectionMeshes := (selectionMeshes r)(pIndex \<mapsto> a) \<rparr>)))"

text \<open>The user's operations on a loaded structure, and a sequence of them.\<close>

datatype operation = Shift string jsnum | Highlight nat bool

fun perform :: "operation \<Rightarrow> renderer \<Rightarrow> js_error + renderer" where
  "perform (Shift axis amount) r = shiftParticles axis amount r"
| "perform (Highlight pIndex highlight) r = Inr (highlightNucleotide pIndex highlight r)"

fun perform_all :: "operation list \<Rightarrow> renderer \<Rightarrow> js_error + renderer" where
  "perform_all [] r = Inr r"
| "perform_all (operation # rest) r =
     (case perform operation r of Inl e \<Rightarrow> Inl e | Inr r1 \<Rightarrow> perform_all rest r1)"

text \<open>The displayed position of each instance, with the index of its particle.\<close>

definition displayed :: "renderer \<Rightarrow> (nat \<times> vec3) list" where
  "displayed r =
     map (\<lambda>inst. (index (inst_particle inst), cells (store r) (inst_position inst)))
       (nucleotideInstances r)"

text \<open>The canonical positions: the values of the original position vectors.\<close>

definition canonical :: "renderer \<Rightarrow> vec3 list" where
  "canonical r = map (cells (store r)) (originalParticlePositions r)"

text \<open>The addresses of the vectors of a graph; all of them have been handed out.\<close>

definition particle_addrs :: "addr Particle \<Rightarrow> addr set" where
  "particle_addrs p = {position p, baseVector p, normalVector p, velocity p, angularVelocity p}"

definition graph_addrs :: "addr StructureGraph \<Rightarrow> addr set" where
  "graph_addrs g = (\<Union>p \<in> set (particles g). particle_addrs p)"

definition graph_allocated :: "addr StructureGraph \<Rightarrow> heap \<Rightarrow> bool" where
  "graph_allocated g h = (\<forall>a \<in> graph_addrs g. a < next_free h)"

text \<open>The side of the box along an axis.\<close>

definition box_side :: "string \<Rightarrow> BoxSpec \<Rightarrow> jsnum option" where
  "box_side axis box =
     (if axis = ''x'' then box_x box else if axis = ''y'' then box_y box
      else if axis = ''z'' then box_z box else None)"

text \<open>
  \<open>DNAVisualizerApp.visualize\<close>, as far as the renderer is concerned:
  \<open>this.combinedData = DataCombiner.combine(this.topologyData, this.configurationData);
  this.renderer.loadData(this.combinedData)\<close>.
\<close>

definition visualize :: "TopologyDocument \<Rightarrow> ConfigurationDocument \<Rightarrow> renderer \<Rightarrow> renderer" where
  "visualize topologyData configurationData r =
     (let (combinedData, h) = store_graph (combine topologyData configurationData) (store r)
      in loadData combinedData (r\<lparr> store := h \<rparr>))"

text \<open>The displayed positions that an operation leaves, if it returns.\<close>

definition displayed_after :: "js_error + renderer \<Rightarrow> (nat \<times> vec3) list option" where
  "displayed_after res = (case res of Inl e \<Rightarrow> None | Inr r \<Rightarrow> Some (displayed r))"

text \<open>
  What holds of a renderer that has loaded the graph \<open>g\<close>, whatever the operations
  since: the vectors it writes to (the offset, the positions of the instances and of
  the selection meshes) are its own, apart from each other and from the vectors of the
  graph and of the snapshot, and there is an original position for every instance.
\<close>

definition instance_addrs :: "renderer \<Rightarrow> addr set" where
  "instance_addrs r = set (map inst_position (nucleotideInstances r))"

definition renderer_inv :: "addr StructureGraph \<Rightarrow> renderer \<Rightarrow> bool" where
  "renderer_inv g r =
     (data r = Some g \<and>
      graph_allocated g (store r) \<and>
      (\<forall>a \<in> set (originalParticlePositions r) \<union> {boxOffset r} \<union> instance_addrs r \<union>
              ran (selectionMeshes r). a < next_free (store r)) \<and>
      distinct (map inst_position (nucleotideInstances r)) \<and>
      boxOffset r \<notin> instance_addrs r \<and>
      (instance_addrs r \<union> {boxOffset r} \<union> ran (selectionMeshes r)) \<inter>
        (graph_addrs g \<union> set (originalParticlePositions r)) = {} \<and>
      ran (selectionMeshes r) \<inter> (instance_addrs r \<union> {boxOffset r}) = {} \<and>
      length (nucleotideInstances r) = length (originalParticlePositions r))"

text \<open>
  The example topology with a configuration of a single row, outside the box along
  \<open>x\<close>, loaded into a new renderer.
\<close>

definition lone_configuration :: ConfigurationDocument where
  "lone_configuration = example_configuration\<lparr> conf_nucleotides := [example_nucleotide 0 15] \<rparr>"

definition lone_graph :: "addr StructureGraph \<times> heap" where
  "lone_graph = store_graph (combine example_topology lone_configuration) (store new_renderer)"

definition lone_session :: renderer where
  "lone_session = visualize example_topology lone_configuration new_renderer"

section \<open>Properties of rounding\<close>

text \<open>
  Powers of two, rounding to the nearest integer, and the binary exponent.
\<close>

lemma pow2_powr: "pow2 e = 2 powr (of_int e)"
  by (simp add: pow2_def powr_int)

lemma pow2_pos: "0 < pow2 e"
  by (simp add: pow2_powr)

lemma pow2_add: "pow2 (a + b) = pow2 a * pow2 b"
  by (simp add: pow2_powr powr_add)

lemma pow2_mono: "a \<le> b \<Longrightarrow> pow2 a \<le> pow2 b"
  by (simp add: pow2_powr)

lemma pow2_le_iff: "pow2 a \<le> pow2 b \<longleftrightarrow> a \<le> b"
  by (simp add: pow2_powr)

lemma pow2_nat: "pow2 (int n) = 2 ^ n"
  by (simp add: pow2_def)

lemma round_even_error: "\<bar>of_int (round_even t) - t\<bar> \<le> 1 / 2"
  unfolding round_even_def Let_def by (auto simp: abs_if) linarith+


lemma round_even_nonneg: "0 \<le> t \<Longrightarrow> 0 \<le> round_even t"
  unfolding round_even_def Let_def by auto

lemma binary_exponent_upper:
  assumes "0 < a"
  shows "a < pow2 (binary_exponent a + 1)"
proof (cases "1 \<le> a")
  case True
  then have pos: "0 < \<lfloor>a\<rfloor>" by simp
  then have b: "0 \<le> bitlen \<lfloor>a\<rfloor>" by (simp add: bitlen_nonneg)
  have "\<lfloor>a\<rfloor> < 2 ^ nat (bitlen \<lfloor>a\<rfloor>)"
    using bitlen_bounds [OF pos] by simp
  then have "\<lfloor>a\<rfloor> + 1 \<le> 2 ^ nat (bitlen \<lfloor>a\<rfloor>)" by simp
  then have "of_int (\<lfloor>a\<rfloor> + 1) \<le> (of_int (2 ^ nat (bitlen \<lfloor>a\<rfloor>)) :: real)"
    by (rule of_int_le_iff [THEN iffD2])
  then have "a < 2 ^ nat (bitlen \<lfloor>a\<rfloor>)"
    by simp linarith
  with True b show ?thesis
    by (simp add: binary_exponent_def pow2_def)
next
  case False
  then have a1: "a < 1" by simp
  let ?n = "\<lceil>1 / a\<rceil>"
  let ?E = "bitlen (?n - 1)"
  have inv: "1 < 1 / a" using assms a1 by simp
  then have n2: "2 \<le> ?n" by linarith
  then have pos: "0 < ?n - 1" by simp
  have E1: "1 \<le> ?E" using pos by (simp add: bitlen_alt_def)
  have "2 ^ nat (?E - 1) \<le> ?n - 1"
    using bitlen_bounds [OF pos] by simp
  then have "(2 ^ nat (?E - 1) :: real) \<le> of_int (?n - 1)"
    by (metis of_int_le_iff of_int_numeral of_int_power)
  also have "\<dots> < 1 / a" by simp linarith
  finally have "2 ^ nat (?E - 1) < 1 / a" .
  then have "a < 1 / 2 ^ nat (?E - 1)"
    using assms by (simp add: field_simps)
  also have "\<dots> = pow2 (- ?E + 1)"
    using E1 by (auto simp: pow2_def)
  also have "\<dots> \<le> pow2 (max (- ?E) (- 1022) + 1)"
    by (rule pow2_mono) simp
  finally show ?thesis
    using False by (simp add: binary_exponent_def)
qed

lemma binary_exponent_lower:
  assumes "0 < a"
  shows "pow2 (binary_exponent a) \<le> a \<or> binary_exponent a = - 1022"
proof (cases "1 \<le> a")
  case True
  then have pos: "0 < \<lfloor>a\<rfloor>" by simp
  then have b: "1 \<le> bitlen \<lfloor>a\<rfloor>" by (simp add: bitlen_alt_def)
  have "2 ^ nat (bitlen \<lfloor>a\<rfloor> - 1) \<le> \<lfloor>a\<rfloor>"
    using bitlen_bounds [OF pos] by simp
  then have "(2 ^ nat (bitlen \<lfloor>a\<rfloor> - 1) :: real) \<le> of_int \<lfloor>a\<rfloor>"
    by (metis of_int_le_iff of_int_numeral of_int_power)
  also have "\<dots> \<le> a" by simp
  finally show ?thesis
    using True b by (simp add: binary_exponent_def pow2_def)
next
  case False
  then have a1: "a < 1" by simp
  let ?n = "\<lceil>1 / a\<rceil>"
  let ?E = "bitlen (?n - 1)"
  have inv: "1 < 1 / a" using assms a1 by simp
  then have n2: "2 \<le> ?n" by linarith
  then have pos: "0 < ?n - 1" by simp
  have E1: "1 \<le> ?E" using pos by (simp add: bitlen_alt_def)
  have "?n - 1 < 2 ^ nat ?E"
    using bitlen_bounds [OF pos] by simp
  then have "?n \<le> 2 ^ nat ?E" by simp
  then have "(of_int ?n :: real) \<le> 2 ^ nat ?E"
    by (metis of_int_le_iff of_int_numeral of_int_power)
  moreover have "1 / a \<le> of_int ?n" by simp
  ultimately have "1 / a \<le> 2 ^ nat ?E" by linarith
  then have "1 / 2 ^ nat ?E \<le> a"
    using assms by (simp add: field_simps)
  moreover have "pow2 (- ?E) = 1 / 2 ^ nat ?E"
    using E1 by (simp add: pow2_def)
  ultimately have "pow2 (- ?E) \<le> a" by simp
  then show ?thesis
    using False by (auto simp: binary_exponent_def max_def)
qed

lemma binary_exponent_small:
  assumes "0 < a" "a < 1"
  shows "binary_exponent a \<le> 0"
  using assms bitlen_nonneg [of "\<lceil>1 / a\<rceil> - 1"] by (simp add: binary_exponent_def)

text \<open>
  The rounded value is within half a unit in the last place of the exact one: a relative
  error of at most \<open>1 / 2 ^ 53\<close>, or \<open>1 / 2 ^ 1075\<close> in the subnormal range. Below
  \<open>2 ^ 1023\<close> the result is finite, and a natural number below \<open>2 ^ 53\<close> is not rounded.
\<close>

lemma round64_cases:
  assumes "x \<noteq> 0"
  obtains (overflow) "round64 x = (if x < 0 then NegInf else PosInf)"
    "1023 < binary_exponent \<bar>x\<bar> \<or>
       (binary_exponent \<bar>x\<bar> = 1023 \<and>
        round_even (\<bar>x\<bar> / pow2 (binary_exponent \<bar>x\<bar> - 52)) = 2 ^ 53)"
  | (finite) "round64 x =
       Num (if x < 0
            then - (of_int (round_even (\<bar>x\<bar> / pow2 (binary_exponent \<bar>x\<bar> - 52))) *
                    pow2 (binary_exponent \<bar>x\<bar> - 52))
            else of_int (round_even (\<bar>x\<bar> / pow2 (binary_exponent \<bar>x\<bar> - 52))) *
                    pow2 (binary_exponent \<bar>x\<bar> - 52))"
proof (cases "1023 < binary_exponent \<bar>x\<bar> \<or>
       (binary_exponent \<bar>x\<bar> = 1023 \<and>
        round_even (\<bar>x\<bar> / pow2 (binary_exponent \<bar>x\<bar> - 52)) = 2 ^ 53)")
  case True
  with assms have "round64 x = (if x < 0 then NegInf else PosInf)"
    by (simp add: round64_def Let_def)
  then show ?thesis using True by (rule overflow)
next
  case False
  show ?thesis
    by (intro finite) (simp only: round64_def Let_def if_not_P [OF assms] if_not_P [OF False])
qed

lemma quantum_error:
  fixes a q :: real
  assumes "0 < q"
  shows "\<bar>of_int (round_even (a / q)) * q - a\<bar> \<le> q / 2"
proof -
  have "of_int (round_even (a / q)) * q - a = (of_int (round_even (a / q)) - a / q) * q"
    using assms by (simp add: field_simps)
  then have "\<bar>of_int (round_even (a / q)) * q - a\<bar> = \<bar>of_int (round_even (a / q)) - a / q\<bar> * q"
    using assms by (simp add: abs_mult)
  also have "\<dots> \<le> (1 / 2) * q"
    using assms round_even_error [of "a / q"] by (intro mult_right_mono) simp_all
  finally show ?thesis by simp
qed

lemma half_quantum_bound:
  assumes "0 < a"
  shows "pow2 (binary_exponent a - 52) / 2 \<le> a / 2 ^ 53 + 1 / 2 ^ 1075"
proof -
  have split: "pow2 (binary_exponent a - 52) / 2 = pow2 (binary_exponent a) / 2 ^ 53"
    using pow2_add [of "binary_exponent a - 52" 52]
    by (simp add: pow2_nat [of 52, simplified] field_simps)
  from binary_exponent_lower [OF assms] show ?thesis
  proof
    assume "pow2 (binary_exponent a) \<le> a"
    then have "pow2 (binary_exponent a) / 2 ^ 53 \<le> a / 2 ^ 53"
      by (simp add: divide_right_mono)
    then show ?thesis unfolding split by simp
  next
    assume e: "binary_exponent a = - 1022"
    have "pow2 (- 1074) / 2 = 1 / 2 ^ 1075"
      by (simp add: pow2_def)
    then show ?thesis
      using assms by (simp add: e)
  qed
qed

lemma round64_error:
  assumes "round64 x = Num c"
  shows "\<bar>c - x\<bar> \<le> \<bar>x\<bar> / 2 ^ 53 + 1 / 2 ^ 1075"
proof (cases "x = 0")
  case True
  with assms show ?thesis by (simp add: round64_def)
next
  case False
  let ?q = "pow2 (binary_exponent \<bar>x\<bar> - 52)"
  let ?m = "round_even (\<bar>x\<bar> / ?q)"
  from False have a: "0 < \<bar>x\<bar>" by simp
  have err: "\<bar>of_int ?m * ?q - \<bar>x\<bar>\<bar> \<le> \<bar>x\<bar> / 2 ^ 53 + 1 / 2 ^ 1075"
    using quantum_error [OF pow2_pos, of "\<bar>x\<bar>" "binary_exponent \<bar>x\<bar> - 52"]
      half_quantum_bound [OF a] by linarith
  from False show ?thesis
  proof (cases rule: round64_cases)
    case overflow
    with assms show ?thesis by (simp split: if_splits)
  next
    case finite
    with assms have c: "c = (if x < 0 then - (of_int ?m * ?q) else of_int ?m * ?q)"
      by simp
    show ?thesis
    proof (cases "x < 0")
      case True
      with c have "c - x = - (of_int ?m * ?q - \<bar>x\<bar>)" by simp
      then have "\<bar>c - x\<bar> = \<bar>of_int ?m * ?q - \<bar>x\<bar>\<bar>" by (simp only: abs_minus_cancel)
      with err show ?thesis by simp
    next
      case False
      with c have "c - x = of_int ?m * ?q - \<bar>x\<bar>" by simp
      with err show ?thesis by simp
    qed
  qed
qed

lemma binary_exponent_below:
  assumes "0 < a" "a < pow2 k" "0 < k"
  shows "binary_exponent a < k"
proof (cases "1 \<le> a")
  case True
  with binary_exponent_lower [OF assms(1)] have "pow2 (binary_exponent a) \<le> a \<or> binary_exponent a = - 1022"
    by simp
  then show ?thesis
  proof
    assume "pow2 (binary_exponent a) \<le> a"
    with assms(2) have "pow2 (binary_exponent a) < pow2 k" by simp
    then show ?thesis by (simp add: pow2_powr)
  next
    assume "binary_exponent a = - 1022"
    with assms(3) show ?thesis by simp
  qed
next
  case False
  with binary_exponent_small [OF assms(1)] have "binary_exponent a \<le> 0" by simp
  with assms(3) show ?thesis by simp
qed

lemma round64_finite:
  assumes "\<bar>x\<bar> < 2 ^ 1023"
  shows "\<exists>c. round64 x = Num c"
proof (cases "x = 0")
  case True
  then show ?thesis by (simp add: round64_def)
next
  case False
  then have "0 < \<bar>x\<bar>" by simp
  moreover have "\<bar>x\<bar> < pow2 1023" using assms by (simp add: pow2_def)
  ultimately have "binary_exponent \<bar>x\<bar> < 1023"
    by (rule binary_exponent_below) simp
  with False show ?thesis
    by (cases rule: round64_cases) auto
qed



lemma round64_nonneg:
  assumes "0 \<le> x" "round64 x = Num c"
  shows "0 \<le> c"
proof (cases "x = 0")
  case True
  with assms show ?thesis by (simp add: round64_def)
next
  case False
  with assms(1) have pos: "0 < x" by simp
  then have "0 \<le> \<bar>x\<bar> / pow2 (binary_exponent \<bar>x\<bar> - 52)"
    using pow2_pos [of "binary_exponent \<bar>x\<bar> - 52"] by simp
  then have "0 \<le> round_even (\<bar>x\<bar> / pow2 (binary_exponent \<bar>x\<bar> - 52))"
    by (rule round_even_nonneg)
  then have m: "0 \<le> of_int (round_even (\<bar>x\<bar> / pow2 (binary_exponent \<bar>x\<bar> - 52))) *
                  pow2 (binary_exponent \<bar>x\<bar> - 52)"
    using pow2_pos [of "binary_exponent \<bar>x\<bar> - 52"] by simp
  from False show ?thesis
  proof (cases rule: round64_cases)
    case overflow
    with assms(2) pos show ?thesis by simp
  next
    case finite
    with assms(2) pos m show ?thesis by simp
  qed
qed

section \<open>Properties of the combiner\<close>

lemma combine_particles_eq:
  "particles (combine t c) =
     map (merge_particle t c) [0..<min (length (topo_particles t)) (length (conf_nucleotides c))]"
  by (simp add: combine_def Let_def)

lemma combine_bonds_eq:
  "bonds (combine t c) = derive_bonds (topo_springs t) (particles (combine t c))"
  by (simp add: combine_def Let_def)

text \<open>
  C5. \<open>combine\<close> yields as many particles as the shorter of the two record lists has
  entries; the particle at position \<open>i\<close> has index \<open>i\<close> and merges the two records at
  position \<open>i\<close>, so the records beyond the shorter list are dropped; with no common
  record there is no particle and no bond. \<open>combine\<close> has no failing branch: it is a
  total function of the two documents.
\<close>

theorem combine_particle_count:
  "length (particles (combine t c)) = min (length (topo_particles t)) (length (conf_nucleotides c)) \<and>
   (\<forall>i < min (length (topo_particles t)) (length (conf_nucleotides c)).
      index (particles (combine t c) ! i) = i \<and>
      particles (combine t c) ! i = merge_particle t c i) \<and>
   (min (length (topo_particles t)) (length (conf_nucleotides c)) = 0 \<longrightarrow>
      particles (combine t c) = [] \<and> bonds (combine t c) = [])"
proof (intro conjI allI impI)
  show "length (particles (combine t c)) = min (length (topo_particles t)) (length (conf_nucleotides c))"
    by (simp add: combine_particles_eq)
next
  fix i assume "i < min (length (topo_particles t)) (length (conf_nucleotides c))"
  then show "particles (combine t c) ! i = merge_particle t c i"
    by (simp add: combine_particles_eq)
  then show "index (particles (combine t c) ! i) = i"
    by (simp add: merge_particle_def Let_def)
next
  assume z: "min (length (topo_particles t)) (length (conf_nucleotides c)) = 0"
  then show "particles (combine t c) = []"
    by (simp add: combine_particles_eq)
  then show "bonds (combine t c) = []"
    by (simp add: combine_bonds_eq derive_bonds_def)
qed

theorem combine_particle_count_witness:
  "(length (particles (combine example_topology example_configuration)) = 3 \<and>
    (2::nat) < 3 \<and> index (particles (combine example_topology example_configuration) ! 2) = 2) \<and>
   (min (length (topo_particles example_topology)) (length (conf_nucleotides default_configuration)) = 0 \<and>
    particles (combine example_topology default_configuration) = [] \<and>
    bonds (combine example_topology default_configuration) = [])"
proof -
  have n: "min (length (topo_particles example_topology))
             (length (conf_nucleotides example_configuration)) = 3"
    by (simp add: example_topology_def example_configuration_def)
  have z: "min (length (topo_particles example_topology))
             (length (conf_nucleotides default_configuration)) = 0"
    by (simp add: default_configuration_def)
  note full = combine_particle_count [of example_topology example_configuration, unfolded n]
  note none = combine_particle_count [of example_topology default_configuration, unfolded z]
  from full have len: "length (particles (combine example_topology example_configuration)) = 3"
    by (rule conjunct1)
  from full have "\<forall>i<3. index (particles (combine example_topology example_configuration) ! i) = i \<and>
      particles (combine example_topology example_configuration) ! i =
        merge_particle example_topology example_configuration i"
    by (rule conjunct2 [THEN conjunct1])
  moreover have "(2::nat) < 3"
    by simp
  ultimately have "index (particles (combine example_topology example_configuration) ! 2) = 2 \<and>
      particles (combine example_topology example_configuration) ! 2 =
        merge_particle example_topology example_configuration 2"
    by blast
  then have idx: "index (particles (combine example_topology example_configuration) ! 2) = 2"
    by (rule conjunct1)
  from none have "particles (combine example_topology default_configuration) = [] \<and>
    bonds (combine example_topology default_configuration) = []"
    by simp
  with len idx z show ?thesis
    by simp
qed

lemma foldl_connections:
  "foldl (add_connection springs n i) bs cs = foldl (step springs n) bs (map (Pair i) cs)"
  by (induction cs arbitrary: bs) (simp_all add: step_def)

lemma foldl_particles:
  "foldl (\<lambda>bs particle. foldl (add_connection springs n (index particle)) bs (connections particle)) bs ps =
   foldl (step springs n) bs (concat (map (\<lambda>p. map (Pair (index p)) (connections p)) ps))"
  by (induction ps arbitrary: bs) (simp_all add: foldl_connections)

lemma declared_of_merged:
  "concat (map (\<lambda>p. map (Pair (index p)) (connections p)) (map (merge_particle t c) [0..<count])) =
   declared_connections t count"
  by (simp add: declared_connections_def merge_particle_def Let_def comp_def)

lemma first_discovered_snoc:
  "first_discovered (ds @ [d]) =
     first_discovered ds @ (if \<exists>e \<in> set ds. same_ends e d then [] else [d])"
proof -
  let ?K = "\<lambda>xs k. \<not> (\<exists>e \<in> set (take k xs). same_ends e (xs ! k))"
  have a: "filter (?K (ds @ [d])) [0..<length ds] = filter (?K ds) [0..<length ds]"
    by (rule filter_cong) (simp_all add: nth_append)
  have b: "map (\<lambda>k. (ds @ [d]) ! k) (filter (?K ds) [0..<length ds]) =
           map (\<lambda>k. ds ! k) (filter (?K ds) [0..<length ds])"
    by (rule map_cong) (simp_all add: nth_append)
  have c: "?K (ds @ [d]) (length ds) = (\<not> (\<exists>e \<in> set ds. same_ends e d))"
    by simp
  have "first_discovered (ds @ [d]) =
          map (\<lambda>k. (ds @ [d]) ! k) (filter (?K (ds @ [d])) ([0..<length ds] @ [length ds]))"
    unfolding first_discovered_def by simp
  also have "\<dots> = map (\<lambda>k. (ds @ [d]) ! k) (filter (?K (ds @ [d])) [0..<length ds]) @
                   (if ?K (ds @ [d]) (length ds) then [d] else [])"
    unfolding filter_append map_append by simp
  also have "\<dots> = map (\<lambda>k. ds ! k) (filter (?K ds) [0..<length ds]) @
                   (if \<exists>e \<in> set ds. same_ends e d then [] else [d])"
    unfolding a b c by simp
  finally show ?thesis
    unfolding first_discovered_def .
qed

lemma first_discovered_subset: "set (first_discovered ds) \<subseteq> set ds"
  by (auto simp: first_discovered_def)

lemma same_ends_trans: "same_ends d e \<Longrightarrow> same_ends e f \<Longrightarrow> same_ends d f"
  by (auto simp: same_ends_def)

lemma same_ends_sym: "same_ends d e \<Longrightarrow> same_ends e d"
  by (auto simp: same_ends_def)

lemma first_discovered_covers:
  "(\<exists>e \<in> set (first_discovered ds). same_ends e d) = (\<exists>e \<in> set ds. same_ends e d)"
proof (induction ds rule: rev_induct)
  case Nil
  show ?case by (simp add: first_discovered_def)
next
  case (snoc x ds)
  show ?case
  proof (cases "\<exists>e \<in> set ds. same_ends e x")
    case True
    then obtain e where e: "e \<in> set ds" "same_ends e x" by blast
    have "same_ends x d \<Longrightarrow> \<exists>e \<in> set ds. same_ends e d"
      using e same_ends_trans by blast
    with True snoc show ?thesis
      by (auto simp: first_discovered_snoc)
  next
    case False
    with snoc show ?thesis
      by (auto simp: first_discovered_snoc)
  qed
qed

lemma matches_bond_of:
  assumes "particleIndex (snd e) \<noteq> None"
  shows "matches_bond i peer (bond_of springs e) = same_ends e (i, \<lparr>particleIndex = peer, springIndex = s\<rparr>)"
  using assms by (auto simp: matches_bond_def bond_of_def same_ends_def js_eq_def)

lemma below_count_peer: "below_count n d \<Longrightarrow> particleIndex (snd d) \<noteq> None"
  by (auto simp: below_count_def js_lt_length_def split: option.splits)

lemma find_None_bond_of:
  assumes "\<forall>e \<in> set F. particleIndex (snd e) \<noteq> None"
  shows "(find (matches_bond (fst d) (particleIndex (snd d))) (map (bond_of springs) F) = None) =
         (\<not> (\<exists>e \<in> set F. same_ends e d))"
proof -
  have "\<And>e. e \<in> set F \<Longrightarrow>
          matches_bond (fst d) (particleIndex (snd d)) (bond_of springs e) = same_ends e d"
    using assms by (auto simp: matches_bond_def bond_of_def same_ends_def js_eq_def)
  then show ?thesis
    by (auto simp: find_None_iff)
qed

lemma step_eq:
  "step springs n bs d =
     (if find (matches_bond (fst d) (particleIndex (snd d))) bs = None \<and> below_count n d
      then bs @ [bond_of springs d] else bs)"
  by (simp add: step_def add_connection_def Let_def bond_of_def below_count_def)

lemma foldl_step_first_discovered:
  "foldl (step springs n) [] ds =
     map (bond_of springs) (first_discovered (filter (below_count n) ds))"
proof (induction ds rule: rev_induct)
  case Nil
  show ?case by (simp add: first_discovered_def)
next
  case (snoc d ds)
  let ?E = "filter (below_count n) ds"
  let ?bs = "map (bond_of springs) (first_discovered ?E)"
  have peers: "\<forall>e \<in> set (first_discovered ?E). particleIndex (snd e) \<noteq> None"
    using first_discovered_subset [of ?E] below_count_peer by fastforce
  have fresh: "(find (matches_bond (fst d) (particleIndex (snd d))) ?bs = None) =
          (\<not> (\<exists>e \<in> set ?E. same_ends e d))"
    using find_None_bond_of [OF peers] first_discovered_covers by simp
  have "foldl (step springs n) [] (ds @ [d]) = step springs n ?bs d"
    using snoc by simp
  also have "\<dots> = (if \<not> (\<exists>e \<in> set ?E. same_ends e d) \<and> below_count n d
                     then ?bs @ [bond_of springs d] else ?bs)"
    by (simp only: step_eq fresh)
  also have "\<dots> = map (bond_of springs) (first_discovered (filter (below_count n) (ds @ [d])))"
    by (auto simp: first_discovered_snoc)
  finally show ?case .
qed

lemma joins_same_ends:
  "joins a b (bond_of springs d) \<Longrightarrow> joins a b (bond_of springs e) \<Longrightarrow> same_ends e d"
  by (auto simp: joins_def bond_of_def same_ends_def)

lemma first_discovered_unique:
  "length (filter (joins a b) (map (bond_of springs) (first_discovered ds))) \<le> 1"
proof (induction ds rule: rev_induct)
  case Nil
  show ?case by (simp add: first_discovered_def)
next
  case (snoc d ds)
  show ?case
  proof (cases "(\<exists>e \<in> set ds. same_ends e d) \<or> \<not> joins a b (bond_of springs d)")
    case True
    with snoc show ?thesis by (auto simp: first_discovered_snoc)
  next
    case False
    then have "\<forall>e \<in> set (first_discovered ds). \<not> joins a b (bond_of springs e)"
      using joins_same_ends first_discovered_subset by blast
    then have "filter (joins a b) (map (bond_of springs) (first_discovered ds)) = []"
      by (simp add: filter_empty_conv)
    with False show ?thesis by (simp add: first_discovered_snoc)
  qed
qed

lemma bonds_eq_first_discovered:
  "bonds (combine t c) =
     map (bond_of (topo_springs t))
       (first_discovered
          (filter (below_count (min (length (topo_particles t)) (length (conf_nucleotides c))))
             (declared_connections t (min (length (topo_particles t)) (length (conf_nucleotides c))))))"
proof -
  let ?n = "min (length (topo_particles t)) (length (conf_nucleotides c))"
  have "bonds (combine t c) = derive_bonds (topo_springs t) (map (merge_particle t c) [0..<?n])"
    by (simp add: combine_def Let_def)
  also have "\<dots> = foldl (step (topo_springs t) ?n) []
      (concat (map (\<lambda>p. map (Pair (index p)) (connections p)) (map (merge_particle t c) [0..<?n])))"
    by (simp add: derive_bonds_def foldl_particles del: map_map)
  also have "\<dots> = foldl (step (topo_springs t) ?n) [] (declared_connections t ?n)"
    by (simp only: declared_of_merged)
  finally show ?thesis
    by (simp add: foldl_step_first_discovered)
qed

text \<open>
  C4. For every pair \<open>(a, b)\<close> at most one bond joins \<open>a\<close> and \<open>b\<close>, in whichever
  orientation; and the bond list is the list of first discoveries: of the declared
  connections with a peer below the count, taken over the particles in index order and
  the connections of each in declaration order, those that no earlier one shares its
  ends with, each oriented from its declaring particle to the peer.
\<close>

theorem bonds_first_discovery:
  "(\<forall>a b. length (filter (joins a b) (bonds (combine t c))) \<le> 1) \<and>
   bonds (combine t c) =
     map (bond_of (topo_springs t))
       (first_discovered
          (filter (below_count (min (length (topo_particles t)) (length (conf_nucleotides c))))
             (declared_connections t (min (length (topo_particles t)) (length (conf_nucleotides c))))))"
  using bonds_eq_first_discovered [of t c] first_discovered_unique by simp

theorem bonds_first_discovery_witness:
  "length (filter (joins 0 1) (bonds (combine example_topology example_configuration))) \<le> 1 \<and>
   map (\<lambda>b. (bond_from b, bond_to b)) (bonds (combine example_topology example_configuration)) =
     [(Some 0, Some 1), (Some 1, Some 2)]"
proof -
  have n: "min (length (topo_particles example_topology))
             (length (conf_nucleotides example_configuration)) = 3"
    by (simp add: example_topology_def example_configuration_def)
  have fd: "first_discovered (filter (below_count 3) (declared_connections example_topology 3)) =
              [(0, \<lparr>particleIndex = Some 1, springIndex = Some 0\<rparr>),
               (1, \<lparr>particleIndex = Some 2, springIndex = Some 0\<rparr>)]"
    by code_simp
  note ex = bonds_first_discovery [of example_topology example_configuration, unfolded n fd]
  from ex have u: "length (filter (joins 0 1) (bonds (combine example_topology example_configuration))) \<le> 1"
    by blast
  from ex have "bonds (combine example_topology example_configuration) =
     map (bond_of (topo_springs example_topology))
       [(0, \<lparr>particleIndex = Some 1, springIndex = Some 0\<rparr>),
        (1, \<lparr>particleIndex = Some 2, springIndex = Some 0\<rparr>)]"
    by (rule conjunct2)
  then have "map (\<lambda>b. (bond_from b, bond_to b)) (bonds (combine example_topology example_configuration)) =
     [(Some 0, Some 1), (Some 1, Some 2)]"
    by (simp add: bond_of_def)
  with u show ?thesis by simp
qed

text \<open>
  What holds of the endpoints of a bond: the origin is a merged index, and the target is
  an integer below the count. Nothing bounds the target from below.
\<close>

lemma declared_index_below:
  "d \<in> set (declared_connections t n) \<Longrightarrow> fst d < n"
  by (auto simp: declared_connections_def)

lemma bond_ends_below_count:
  assumes "b \<in> set (bonds (combine t c))"
  shows "\<exists>i k. bond_from b = Some (int i) \<and> bond_to b = Some k \<and>
           i < min (length (topo_particles t)) (length (conf_nucleotides c)) \<and>
           k < int (min (length (topo_particles t)) (length (conf_nucleotides c)))"
proof -
  let ?n = "min (length (topo_particles t)) (length (conf_nucleotides c))"
  from assms obtain d where d: "d \<in> set (first_discovered (filter (below_count ?n) (declared_connections t ?n)))"
    and b: "b = bond_of (topo_springs t) d"
    unfolding bonds_eq_first_discovered [of t c] by auto
  from d first_discovered_subset have "d \<in> set (filter (below_count ?n) (declared_connections t ?n))"
    by blast
  then have m: "d \<in> set (declared_connections t ?n)" and bc: "below_count ?n d"
    by simp_all
  have "fst d < ?n"
    using declared_index_below [OF m] .
  with bc show ?thesis
    using b by (auto simp: bond_of_def below_count_def js_lt_length_def split: option.splits)
qed

text \<open>
  C2. The topology names the neighbour \<open>-1\<close> for its only particle. \<open>combine\<close> merges
  one particle and keeps the bond from 0 to \<open>-1\<close>, since \<open>-1 < particles.length\<close>: the
  target of the bond is not a merged index.
\<close>

theorem negative_peer_bond:
  "case (TopologyParser_parse blank_neighbour_topology,
         ConfigurationParser_parse one_row_configuration) of
     (Inr t, Inr c) \<Rightarrow>
        length (particles (combine t c)) = 1 \<and>
        map (\<lambda>b. (bond_from b, bond_to b)) (bonds (combine t c)) = [(Some 0, Some (- 1))]
   | _ \<Rightarrow> False"
  by code_simp

section \<open>Properties of the parsers\<close>

lemma readme_topology_parsed: "TopologyParser_parse readme_topology = Inr example_topology"
  by code_simp

lemma example_configuration_parsed:
  "ConfigurationParser_parse example_configuration_text = Inr example_configuration"
  by code_simp



















text \<open>
  C3. The text consists of the line \<open>t = 0\<close> alone. The timestep is read and the cursor
  moves to 1; \<open>lines[1]\<close> is \<open>undefined\<close> and the test for \<open>b =\<close> throws a TypeError.
\<close>

theorem configuration_parse_raises:
  "ConfigurationParser_parse ''t = 0'' = Inl TypeError"
  by code_simp

text \<open>
  Where \<open>ConfigurationParser.parse\<close> does return: the cursor moves past a line only if
  that line is a recognised header line, so the header tests stay inside the array
  whenever the last line of the text is neither a \<open>t =\<close> line nor a \<open>b =\<close> line, as in
  every text that ends with a line break.
\<close>

lemma split_from_nonempty: "split_from c cur s \<noteq> []"
  by (induction s arbitrary: cur) simp_all

lemma lines_of_nonempty: "lines_of content \<noteq> []"
  by (simp add: lines_of_def split_char_def split_from_nonempty)

lemma split_from_two: "c \<in> set s \<Longrightarrow> 2 \<le> length (split_from c cur s)"
proof (induction s arbitrary: cur)
  case Nil
  then show ?case by simp
next
  case (Cons d s)
  show ?case
  proof (cases "d = c")
    case True
    have "1 \<le> length (split_from c [] s)"
      using split_from_nonempty [of c "[]" s] by (cases "split_from c [] s") simp_all
    with True show ?thesis by simp
  next
    case False
    with Cons show ?thesis by simp
  qed
qed

lemma after_equals_returns:
  assumes "startsWith line p" "CHR ''='' \<in> set p"
  shows "\<exists>v. after_equals line = Inr v"
proof -
  from assms(1) have "p = take (length p) line"
    by (simp add: startsWith_def)
  then have "set p \<subseteq> set line"
    by (metis set_take_subset)
  with assms(2) have "CHR ''='' \<in> set line" by blast
  then have "2 \<le> length (split_char (CHR ''='') line)"
    by (simp add: split_char_def split_from_two)
  then show ?thesis
    by (simp add: after_equals_def element_def)
qed

lemma header_t_returns:
  assumes "cur < length lines"
  shows "\<exists>config' cur'. header_t lines (config, cur) = Inr (config', cur') \<and>
           (cur' = cur \<or> cur' = Suc cur \<and> startsWith (lines ! cur) ''t ='')"
proof (cases "startsWith (lines ! cur) ''t =''")
  case True
  then obtain v where "after_equals (lines ! cur) = Inr v"
    using after_equals_returns [of "lines ! cur" "''t =''"] by auto
  with True assms show ?thesis
    by (simp add: header_t_def element_def)
next
  case False
  with assms show ?thesis
    by (simp add: header_t_def element_def)
qed

lemma header_b_returns:
  assumes "cur < length lines"
  shows "\<exists>config' cur'. header_b lines (config, cur) = Inr (config', cur') \<and>
           (cur' = cur \<or> cur' = Suc cur \<and> startsWith (lines ! cur) ''b ='')"
proof (cases "startsWith (lines ! cur) ''b =''")
  case True
  then obtain v where "after_equals (lines ! cur) = Inr v"
    using after_equals_returns [of "lines ! cur" "''b =''"] by auto
  with True assms show ?thesis
    by (simp add: header_b_def element_def split_beta)
next
  case False
  with assms show ?thesis
    by (simp add: header_b_def element_def)
qed

lemma header_E_returns:
  assumes "cur < length lines"
  shows "\<exists>config' cur'. header_E lines (config, cur) = Inr (config', cur')"
proof (cases "startsWith (lines ! cur) ''E =''")
  case True
  then obtain v where "after_equals (lines ! cur) = Inr v"
    using after_equals_returns [of "lines ! cur" "''E =''"] by auto
  with True assms show ?thesis
    by (simp add: header_E_def element_def split_beta)
next
  case False
  with assms show ?thesis
    by (simp add: header_E_def element_def)
qed

lemma configuration_parse_returns:
  assumes "\<not> startsWith (last (lines_of content)) ''t =''"
    and "\<not> startsWith (last (lines_of content)) ''b =''"
  shows "\<exists>doc. ConfigurationParser_parse content = Inr doc"
proof -
  let ?ls = "lines_of content"
  have ne: "?ls \<noteq> []" by (rule lines_of_nonempty)
  then have l0: "0 < length ?ls" by simp
  have lastI: "\<And>k p. k < length ?ls \<Longrightarrow> startsWith (?ls ! k) p \<Longrightarrow>
                 \<not> startsWith (last ?ls) p \<Longrightarrow> Suc k < length ?ls"
  proof -
    fix k p assume k: "k < length ?ls" and s: "startsWith (?ls ! k) p"
      and n: "\<not> startsWith (last ?ls) p"
    have "k \<noteq> length ?ls - 1"
      using s n ne by (auto simp: last_conv_nth)
    with k show "Suc k < length ?ls" by simp
  qed
  from header_t_returns [OF l0, of default_configuration]
  obtain c1 k1 where h1: "header_t ?ls (default_configuration, 0) = Inr (c1, k1)"
    and k1: "k1 = 0 \<or> k1 = Suc 0 \<and> startsWith (?ls ! 0) ''t =''"
    by blast
  have k1lt: "k1 < length ?ls"
    using k1 l0 lastI [OF l0 _ assms(1)] by auto
  from header_b_returns [OF k1lt, of c1]
  obtain c2 k2 where h2: "header_b ?ls (c1, k1) = Inr (c2, k2)"
    and k2: "k2 = k1 \<or> k2 = Suc k1 \<and> startsWith (?ls ! k1) ''b =''"
    by blast
  have k2lt: "k2 < length ?ls"
    using k2 k1lt lastI [OF k1lt _ assms(2)] by auto
  from header_E_returns [OF k2lt, of c2]
  obtain c3 k3 where h3: "header_E ?ls (c2, k2) = Inr (c3, k3)"
    by blast
  show ?thesis
    by (simp add: ConfigurationParser_parse_def Let_def h1 h2 h3)
qed

section \<open>Properties of wrapping\<close>

lemma trunc_rem_nonneg:
  fixes a b :: real
  assumes "0 < b" "0 \<le> a"
  shows "0 \<le> a - b * of_int (js_trunc (a / b))" "a - b * of_int (js_trunc (a / b)) < b"
proof -
  have q: "0 \<le> a / b" using assms by simp
  then have t: "js_trunc (a / b) = \<lfloor>a / b\<rfloor>" by (simp add: js_trunc_def)
  have "of_int \<lfloor>a / b\<rfloor> * b \<le> a"
    using of_int_floor_le [of "a / b"] assms(1) by (simp only: pos_le_divide_eq)
  then show "0 \<le> a - b * of_int (js_trunc (a / b))" using t by (simp add: mult.commute)
  have "a < (of_int \<lfloor>a / b\<rfloor> + 1) * b"
    using real_of_int_floor_add_one_gt [of "a / b"] assms(1) by (simp only: pos_divide_less_eq)
  then show "a - b * of_int (js_trunc (a / b)) < b" using t by (simp add: algebra_simps)
qed

lemma trunc_rem_neg:
  fixes a b :: real
  assumes "0 < b" "a < 0"
  shows "- b < a - b * of_int (js_trunc (a / b))" "a - b * of_int (js_trunc (a / b)) \<le> 0"
proof -
  have q: "a / b < 0" using assms by (simp add: field_simps)
  then have t: "js_trunc (a / b) = \<lceil>a / b\<rceil>" by (simp add: js_trunc_def)
  have "a \<le> of_int \<lceil>a / b\<rceil> * b"
    using le_of_int_ceiling [of "a / b"] assms(1) by (simp only: pos_divide_le_eq)
  then show "a - b * of_int (js_trunc (a / b)) \<le> 0" using t by (simp add: mult.commute)
  have "(of_int \<lceil>a / b\<rceil> - 1) * b < a"
    using ceiling_correct [of "a / b"] assms(1) by (simp only: pos_less_divide_eq)
  then show "- b < a - b * of_int (js_trunc (a / b))" using t by (simp add: algebra_simps)
qed

text \<open>
  For a box side \<open>L > 0\<close> the result is a finite number, not negative, and within the
  rounding error of one addition of \<open>v - n * L\<close> for an integer \<open>n\<close>.
\<close>

lemma wrap_finite:
  assumes L: "0 < L" "L < 2 ^ 1023"
  shows "\<exists>w n. wrap (Num v) (Num L) = Num w \<and> 0 \<le> w \<and>
           \<bar>w - (v - of_int n * L)\<bar> \<le> L / 2 ^ 53 + 1 / 2 ^ 1075"
proof -
  let ?t = "js_trunc (v / L)"
  let ?r = "v - L * of_int ?t"
  have rem: "js_rem (Num v) (Num L) = Num ?r"
    using L(1) by simp
  have eta: "(0::real) \<le> L / 2 ^ 53 + 1 / 2 ^ 1075"
    using L(1) by simp
  show ?thesis
  proof (cases "?r < 0")
    case False
    then have "wrap (Num v) (Num L) = Num ?r"
      by (simp add: wrap_def rem Let_def del: js_rem.simps)
    moreover have "\<bar>?r - (v - of_int ?t * L)\<bar> \<le> L / 2 ^ 53 + 1 / 2 ^ 1075"
      using eta by (simp add: mult.commute)
    ultimately show ?thesis using False by (intro exI [of _ ?r] exI [of _ ?t]) simp
  next
    case True
    then have neg: "v < 0"
      using trunc_rem_nonneg(1) [OF L(1), of v] by (cases "0 \<le> v") simp_all
    from trunc_rem_neg(1) [OF L(1) neg] have lo: "0 < ?r + L" by simp
    from True have hi: "?r + L < L" by simp
    have w: "wrap (Num v) (Num L) = round64 (?r + L)"
      using True by (simp add: wrap_def rem Let_def del: js_rem.simps)
    have "\<bar>?r + L\<bar> < 2 ^ 1023" using lo hi L(2) by simp
    from round64_finite [OF this] obtain c where c: "round64 (?r + L) = Num c" by blast
    from round64_nonneg [OF _ c] lo have c0: "0 \<le> c" by simp
    from round64_error [OF c] have "\<bar>c - (?r + L)\<bar> \<le> \<bar>?r + L\<bar> / 2 ^ 53 + 1 / 2 ^ 1075" .
    moreover have "\<bar>?r + L\<bar> / 2 ^ 53 \<le> L / 2 ^ 53"
      using lo hi by (simp add: divide_right_mono)
    ultimately have "\<bar>c - (?r + L)\<bar> \<le> L / 2 ^ 53 + 1 / 2 ^ 1075" by linarith
    moreover have "?r + L = v - of_int (?t - 1) * L"
      by (simp add: algebra_simps)
    ultimately have "\<bar>c - (v - of_int (?t - 1) * L)\<bar> \<le> L / 2 ^ 53 + 1 / 2 ^ 1075"
      by simp
    with w c c0 show ?thesis by (intro exI [of _ c] exI [of _ "?t - 1"]) simp
  qed
qed

text \<open>
  C1. With a box size of 0 the remainder is NaN, the test \<open>res < 0\<close> is false and NaN is
  returned: the value is not passed through, at 5 or anywhere else.
\<close>

theorem wrap_zero_box_is_NaN:
  "wrap (Num 5) (Num 0) = NaN \<and> wrap (Num 5) (Num 0) \<noteq> Num 5 \<and> (\<forall>v. wrap v (Num 0) = NaN)"
proof -
  have "wrap v (Num 0) = NaN" for v
    by (cases v) (simp_all add: wrap_def)
  then show ?thesis by simp
qed

text \<open>
  C7. The upper bound is reached. For a value just below zero the remainder is the value
  itself, it is negative, and the sum \<open>res + max\<close> is rounded to \<open>max\<close>: with
  \<open>v = - 1 / 2 ^ 60\<close> and \<open>L = 1\<close> the exact sum \<open>1 - 1 / 2 ^ 60\<close> lies between the
  binary64 values \<open>1 - 1 / 2 ^ 53\<close> and \<open>1\<close>, nearer to \<open>1\<close>, and \<open>wrap\<close> returns
  \<open>1\<close>, which is not below \<open>L\<close>.
\<close>

theorem wrap_reaches_box_side:
  "wrap (Num (- (1 / 2 ^ 60))) (Num 1) = Num 1 \<and>
   \<not> js_lt (wrap (Num (- (1 / 2 ^ 60))) (Num 1)) (Num 1)"
  by code_simp

section \<open>Properties of the store\<close>

lemma new_vec_props:
  "fst (new_vec v h) = next_free h"
  "next_free (snd (new_vec v h)) = Suc (next_free h)"
  "cells (snd (new_vec v h)) a = (if a = next_free h then v else cells h a)"
  by (simp_all add: new_vec_def)

lemma clone_props:
  "fst (clone b h) = next_free h"
  "next_free (snd (clone b h)) = Suc (next_free h)"
  "cells (snd (clone b h)) a = (if a = next_free h then cells h b else cells h a)"
  by (simp_all add: clone_def new_vec_props)

lemma set_vec_props:
  "next_free (set_vec a v h) = next_free h"
  "cells (set_vec a v h) b = (if b = a then v else cells h b)"
  by (simp_all add: set_vec_def)

lemma upt_shift: "[n..<n + Suc k] = n # [Suc n..<Suc n + k]"
  by (simp add: upt_conv_Cons del: upt_Suc)

lemma clone_all_unfold:
  "clone_all (a # as) h =
     (next_free h # fst (clone_all as (snd (clone a h))), snd (clone_all as (snd (clone a h))))"
  by (simp add: split_beta Let_def clone_props)

lemma clone_all_addrs: "fst (clone_all as h) = [next_free h..<next_free h + length as]"
proof (induction as arbitrary: h)
  case Nil
  show ?case by simp
next
  case (Cons a as)
  show ?case
    unfolding clone_all_unfold fst_conv list.size Cons.IH clone_props
    using upt_shift [of "next_free h" "length as"] by simp
qed

lemma clone_all_next: "next_free (snd (clone_all as h)) = next_free h + length as"
  by (induction as arbitrary: h) (simp_all add: clone_all_unfold clone_props del: clone_all.simps(2))

lemma clone_all_old: "a < next_free h \<Longrightarrow> cells (snd (clone_all as h)) a = cells h a"
  by (induction as arbitrary: h) (simp_all add: clone_all_unfold clone_props del: clone_all.simps(2))

lemma clone_all_values:
  "j < length as \<Longrightarrow> as ! j < next_free h \<Longrightarrow>
     cells (snd (clone_all as h)) (next_free h + j) = cells h (as ! j)"
proof (induction as arbitrary: h j)
  case Nil
  then show ?case by simp
next
  case (Cons a as)
  let ?h1 = "snd (clone a h)"
  show ?case
  proof (cases j)
    case 0
    have "cells (snd (clone_all as ?h1)) (next_free h) = cells ?h1 (next_free h)"
      by (rule clone_all_old) (simp add: clone_props)
    then show ?thesis using 0 by (simp add: clone_all_unfold clone_props del: clone_all.simps(2))
  next
    case (Suc k)
    with Cons.prems have k: "k < length as" and lt: "as ! k < next_free ?h1"
      by (simp_all add: clone_props)
    from Cons.IH [OF k lt]
    have "cells (snd (clone_all as ?h1)) (Suc (next_free h) + k) = cells ?h1 (as ! k)"
      by (simp add: clone_props)
    moreover have "cells ?h1 (as ! k) = cells h (as ! k)"
      using Cons.prems Suc by (simp add: clone_props)
    ultimately show ?thesis
      using Suc by (simp add: clone_all_unfold del: clone_all.simps(2))
  qed
qed

lemma make_instances_unfold:
  "make_instances (p # ps) h =
     (\<lparr> inst_position = next_free h, inst_particle = p \<rparr> #
        fst (make_instances ps (snd (clone (position p) h))),
      snd (make_instances ps (snd (clone (position p) h))))"
  by (simp add: split_beta Let_def clone_props)

lemma make_instances_addrs:
  "map inst_position (fst (make_instances ps h)) = [next_free h..<next_free h + length ps]"
proof (induction ps arbitrary: h)
  case Nil
  show ?case by simp
next
  case (Cons p ps)
  show ?case
    unfolding make_instances_unfold fst_conv list.size list.map Cons.IH clone_props
    using upt_shift [of "next_free h" "length ps"] by simp
qed

lemma make_instances_particles: "map inst_particle (fst (make_instances ps h)) = ps"
  by (induction ps arbitrary: h) (simp_all add: make_instances_unfold del: make_instances.simps(2))

lemma make_instances_next: "next_free (snd (make_instances ps h)) = next_free h + length ps"
  by (induction ps arbitrary: h)
     (simp_all add: make_instances_unfold clone_props del: make_instances.simps(2))

lemma make_instances_old: "a < next_free h \<Longrightarrow> cells (snd (make_instances ps h)) a = cells h a"
  by (induction ps arbitrary: h)
     (simp_all add: make_instances_unfold clone_props del: make_instances.simps(2))

section \<open>The instances of a loaded graph\<close>

text \<open>
  The walk over the strand groups visits every particle once: there are as many
  instances as particles, though not always in the order of the particles.
\<close>

lemma first_occurrences_set: "set (first_occurrences seen ks) = set seen \<union> set ks"
  by (induction ks arbitrary: seen) auto

lemma first_occurrences_distinct: "distinct seen \<Longrightarrow> distinct (first_occurrences seen ks)"
  by (induction ks arbitrary: seen) auto

lemma index_keys_eq:
  "map Some (List.map_filter (\<lambda>k. if array_index k then k else None) ks) = filter array_index ks"
proof (induction ks)
  case Nil
  show ?case by (simp add: List.map_filter_simps)
next
  case (Cons k ks)
  then show ?case
    by (cases k) (auto simp: List.map_filter_simps array_index_def)
qed

lemma strand_keys_set: "set (strand_keys ps) = strand ` set ps"
proof -
  let ?ks = "first_occurrences [] (map strand ps)"
  let ?ns = "List.map_filter (\<lambda>k. if array_index k then k else None) ?ks"
  have "set (map Some (sort ?ns)) = set (map Some ?ns)"
    by simp
  also have "\<dots> = set (filter array_index ?ks)"
    by (simp only: index_keys_eq)
  finally have "set (strand_keys ps) = set (filter array_index ?ks) \<union> set (filter (\<lambda>k. \<not> array_index k) ?ks)"
    by (simp add: strand_keys_def Let_def)
  also have "\<dots> = set ?ks"
    by auto
  finally show ?thesis
    by (simp add: first_occurrences_set)
qed

lemma strand_keys_distinct: "distinct (strand_keys ps)"
proof -
  let ?ks = "first_occurrences [] (map strand ps)"
  let ?ns = "List.map_filter (\<lambda>k. if array_index k then k else None) ?ks"
  have d: "distinct ?ks"
    by (simp add: first_occurrences_distinct)
  have "distinct (map Some ?ns)"
    using d by (simp only: index_keys_eq distinct_filter)
  then have "distinct ?ns"
    by (simp add: distinct_map)
  then have d1: "distinct (map Some (sort ?ns))"
    by (simp add: distinct_map)
  have d2: "distinct (filter (\<lambda>k. \<not> array_index k) ?ks)"
    using d by simp
  have "set (map Some (sort ?ns)) = set (map Some ?ns)"
    by simp
  also have "\<dots> = set (filter array_index ?ks)"
    by (simp only: index_keys_eq)
  finally have "set (map Some (sort ?ns)) \<inter> set (filter (\<lambda>k. \<not> array_index k) ?ks) = {}"
    by auto
  with d1 d2 show ?thesis
    by (simp add: strand_keys_def Let_def)
qed

lemma count_key:
  "distinct ks \<Longrightarrow> x \<in> set ks \<Longrightarrow> sum_list (map (\<lambda>k. if x = k then 1 else 0) ks) = (1::nat)"
proof (induction ks)
  case Nil
  then show ?case by simp
next
  case (Cons k ks)
  show ?case
  proof (cases "x = k")
    case True
    with Cons.prems have "x \<notin> set ks" by simp
    then have "sum_list (map (\<lambda>k. if x = k then 1 else 0) ks) = (0::nat)"
      by (induction ks) auto
    with True show ?thesis by simp
  next
    case False
    with Cons show ?thesis by simp
  qed
qed

lemma length_groups:
  "distinct ks \<Longrightarrow> f ` set ps \<subseteq> set ks \<Longrightarrow>
     length (concat (map (\<lambda>k. filter (\<lambda>p. f p = k) ps) ks)) = length ps"
proof (induction ps)
  case Nil
  show ?case by (simp add: length_concat comp_def)
next
  case (Cons p ps)
  then have IH: "sum_list (map (\<lambda>k. length (filter (\<lambda>p. f p = k) ps)) ks) = length ps"
    by (simp add: length_concat comp_def)
  have "sum_list (map (\<lambda>k. length (filter (\<lambda>q. f q = k) (p # ps))) ks) =
        sum_list (map (\<lambda>k. (if f p = k then 1 else 0) + length (filter (\<lambda>q. f q = k) ps)) ks)"
    by (rule arg_cong [where f = sum_list], rule map_cong) simp_all
  also have "\<dots> = sum_list (map (\<lambda>k. if f p = k then 1 else 0) ks) +
                   sum_list (map (\<lambda>k. length (filter (\<lambda>q. f q = k) ps)) ks)"
    by (simp add: sum_list_addf)
  also have "\<dots> = 1 + length ps"
    using count_key [of ks "f p"] Cons.prems IH by simp
  finally show ?case
    by (simp add: length_concat comp_def)
qed

lemma length_strand_groups: "length (strand_groups ps) = length ps"
  unfolding strand_groups_def
  by (rule length_groups) (simp_all add: strand_keys_distinct strand_keys_set)

lemma set_strand_groups: "set (strand_groups ps) = set ps"
  by (auto simp: strand_groups_def strand_keys_set)

lemma strand_groups_Nil: "strand_groups [] = []"
  using set_strand_groups [of "[]"] by simp

lemma renderNucleotides_eq: "renderNucleotides ps h = make_instances (strand_groups ps) h"
  by (simp add: renderNucleotides_def strand_groups_Nil)

lemma make_instances_length: "length (fst (make_instances ps h)) = length ps"
  using make_instances_particles [of ps h] by (metis length_map)

lemma loadData_unfold:
  "loadData g r =
     (let h1 = snd (new_vec zero_vec (store r));
          h2 = snd (clone_all (map position (particles g)) h1);
          h3 = snd (make_instances (strand_groups (particles g)) h2)
      in \<lparr> store = h3, data = Some g, boxOffset = next_free (store r),
           originalParticlePositions = fst (clone_all (map position (particles g)) h1),
           nucleotideInstances = fst (make_instances (strand_groups (particles g)) h2),
           selectionMeshes = Map.empty,
           bondMeshes = renderBonds (bonds g) (particles g) h3 \<rparr>)"
  by (simp add: loadData_def split_beta Let_def renderNucleotides_eq new_vec_props)

lemma loadData_fields:
  "data (loadData g r) = Some g"
  "boxOffset (loadData g r) = next_free (store r)"
  "selectionMeshes (loadData g r) = Map.empty"
  "originalParticlePositions (loadData g r) =
     [Suc (next_free (store r))..<Suc (next_free (store r)) + length (particles g)]"
  "map inst_position (nucleotideInstances (loadData g r)) =
     [Suc (next_free (store r)) + length (particles g)..<
      Suc (next_free (store r)) + length (particles g) + length (particles g)]"
  "map inst_particle (nucleotideInstances (loadData g r)) = strand_groups (particles g)"
  "next_free (store (loadData g r)) =
     Suc (next_free (store r)) + length (particles g) + length (particles g)"
  by (simp_all add: loadData_unfold Let_def clone_all_addrs clone_all_next make_instances_addrs
        make_instances_particles make_instances_next new_vec_props length_strand_groups)

lemma loadData_old_cells:
  "a < next_free (store r) \<Longrightarrow> cells (store (loadData g r)) a = cells (store r) a"
  by (simp add: loadData_unfold Let_def make_instances_old clone_all_next clone_all_old
        new_vec_props)

lemma loadData_offset_zero:
  "cells (store (loadData g r)) (boxOffset (loadData g r)) = zero_vec"
  by (simp add: loadData_unfold Let_def make_instances_old clone_all_next clone_all_old
        new_vec_props)

lemma loadData_snapshot:
  assumes "j < length (particles g)" "position (particles g ! j) < next_free (store r)"
  shows "cells (store (loadData g r)) (originalParticlePositions (loadData g r) ! j) =
         cells (store r) (position (particles g ! j))"
proof -
  let ?h1 = "snd (new_vec zero_vec (store r))"
  let ?as = "map position (particles g)"
  let ?h2 = "snd (clone_all ?as ?h1)"
  have n1: "next_free ?h1 = Suc (next_free (store r))"
    by (simp add: new_vec_props)
  have "originalParticlePositions (loadData g r) ! j = next_free ?h1 + j"
    using assms(1) by (simp add: loadData_fields n1 del: upt_Suc)
  moreover have "cells (store (loadData g r)) (next_free ?h1 + j) = cells ?h2 (next_free ?h1 + j)"
    using assms(1) by (simp add: loadData_unfold Let_def make_instances_old clone_all_next)
  moreover have "cells ?h2 (next_free ?h1 + j) = cells ?h1 (?as ! j)"
    using assms by (intro clone_all_values) (simp_all add: n1)
  moreover have "cells ?h1 (?as ! j) = cells (store r) (position (particles g ! j))"
    using assms by (simp add: new_vec_props)
  ultimately show ?thesis by simp
qed

lemma position_in_graph_addrs:
  "j < length (particles g) \<Longrightarrow> position (particles g ! j) \<in> graph_addrs g"
  by (auto simp: graph_addrs_def particle_addrs_def)

lemma loadData_canonical:
  assumes "graph_allocated g (store r)"
  shows "canonical (loadData g r) = map (\<lambda>p. cells (store r) (position p)) (particles g)"
proof (rule nth_equalityI)
  show "length (canonical (loadData g r)) =
        length (map (\<lambda>p. cells (store r) (position p)) (particles g))"
    by (simp add: canonical_def loadData_fields del: upt_Suc)
next
  fix j assume "j < length (canonical (loadData g r))"
  then have j: "j < length (particles g)"
    by (simp add: canonical_def loadData_fields del: upt_Suc)
  then have "position (particles g ! j) < next_free (store r)"
    using assms position_in_graph_addrs by (auto simp: graph_allocated_def)
  from loadData_snapshot [OF j this] j
  show "canonical (loadData g r) ! j = map (\<lambda>p. cells (store r) (position p)) (particles g) ! j"
    by (simp add: canonical_def loadData_fields del: upt_Suc)
qed

lemma deref_graph_cong:
  assumes "\<forall>a \<in> graph_addrs g. cells h' a = cells h a"
  shows "deref_graph h' g = deref_graph h g"
proof -
  have "\<And>p. p \<in> set (particles g) \<Longrightarrow> deref_particle h' p = deref_particle h p"
    using assms by (auto simp: deref_particle_def graph_addrs_def particle_addrs_def)
  then show ?thesis
    by (simp add: deref_graph_def)
qed

lemma loadData_inv:
  assumes "graph_allocated g (store r)"
  shows "renderer_inv g (loadData g r)"
proof -
  let ?base = "next_free (store r)"
  let ?len = "length (particles g)"
  have ga: "\<forall>a \<in> graph_addrs g. a < ?base"
    using assms by (simp add: graph_allocated_def)
  have ia: "instance_addrs (loadData g r) = {Suc ?base + ?len..<Suc ?base + ?len + ?len}"
    by (simp add: instance_addrs_def loadData_fields del: upt_Suc set_map)
  have oa: "set (originalParticlePositions (loadData g r)) = {Suc ?base..<Suc ?base + ?len}"
    by (simp add: loadData_fields del: upt_Suc)
  have len: "length (nucleotideInstances (loadData g r)) = length (originalParticlePositions (loadData g r))"
    using loadData_fields(6) [of g r] by (metis length_map length_strand_groups loadData_fields(4) length_upt add_diff_cancel_left')
  have dist: "distinct (map inst_position (nucleotideInstances (loadData g r)))"
    by (simp add: loadData_fields del: upt_Suc)
  have g2: "graph_allocated g (store (loadData g r))"
    unfolding graph_allocated_def
  proof
    fix a assume "a \<in> graph_addrs g"
    with ga have "a < ?base" by blast
    then show "a < next_free (store (loadData g r))"
      by (simp add: loadData_fields(7))
  qed
  show ?thesis
    unfolding renderer_inv_def ia oa
    using ga g2 len dist
    by (auto simp: loadData_fields simp del: upt_Suc)
qed

section \<open>Shifting the box\<close>

text \<open>
  The loop over the instances returns when every instance has an original position;
  it writes to the positions of the instances and of the selection meshes only, and
  leaves at each instance the wrapped sum of its original position and the offset.
\<close>

lemma update_instances_props:
  assumes "distinct (map inst_position insts)"
    and "off \<notin> set (map inst_position insts)"
    and "set origs \<inter> set (map inst_position insts) = {}"
    and "ran sel \<inter> (set (map inst_position insts) \<union> set origs \<union> {off}) = {}"
    and "i + length insts \<le> length origs"
  shows "\<exists>h'. update_instances box off origs sel i insts h = Inr h' \<and>
           next_free h' = next_free h \<and>
           (\<forall>a. a \<notin> set (map inst_position insts) \<union> ran sel \<longrightarrow> cells h' a = cells h a) \<and>
           (\<forall>j < length insts.
              cells h' (inst_position (insts ! j)) =
                wrapped_position box (cells h (origs ! (i + j))) (cells h off))"
  using assms
proof (induction insts arbitrary: i h)
  case Nil
  show ?case by simp
next
  case (Cons inst rest)
  let ?p = "inst_position inst"
  let ?v = "wrapped_position box (cells h (origs ! i)) (cells h off)"
  let ?h1 = "set_vec ?p ?v h"
  let ?h2 = "case sel (index (inst_particle inst)) of None \<Rightarrow> ?h1
             | Some selMesh \<Rightarrow> set_vec selMesh (cells ?h1 ?p) ?h1"
  have i: "i < length origs" using Cons.prems(5) by simp
  have p_rest: "?p \<notin> set (map inst_position rest)" using Cons.prems(1) by simp
  have p_sel: "?p \<notin> ran sel" using Cons.prems(4) by auto
  have p_off: "?p \<noteq> off" using Cons.prems(2) by auto
  have p_orig: "?p \<notin> set origs" using Cons.prems(3) by auto
  have sel_orig: "\<And>m. m \<in> ran sel \<Longrightarrow> m \<notin> set origs \<and> m \<noteq> off \<and> m \<noteq> ?p"
    using Cons.prems(4) by auto
  have h2_cells: "\<And>a. a \<noteq> ?p \<Longrightarrow> a \<notin> ran sel \<Longrightarrow> cells ?h2 a = cells h a"
    by (auto simp: set_vec_props ran_def split: option.splits)
  have h2_p: "cells ?h2 ?p = ?v"
    using p_sel by (auto simp: set_vec_props ran_def split: option.splits)
  have h2_next: "next_free ?h2 = next_free h"
    by (simp add: set_vec_props split: option.splits)
  have step: "update_instances box off origs sel i (inst # rest) h =
              update_instances box off origs sel (Suc i) rest ?h2"
    using i by (simp add: element_def Let_def)
  have "\<exists>h'. update_instances box off origs sel (Suc i) rest ?h2 = Inr h' \<and>
           next_free h' = next_free ?h2 \<and>
           (\<forall>a. a \<notin> set (map inst_position rest) \<union> ran sel \<longrightarrow> cells h' a = cells ?h2 a) \<and>
           (\<forall>j < length rest.
              cells h' (inst_position (rest ! j)) =
                wrapped_position box (cells ?h2 (origs ! (Suc i + j))) (cells ?h2 off))"
    using Cons.prems by (intro Cons.IH) auto
  then obtain h' where run: "update_instances box off origs sel (Suc i) rest ?h2 = Inr h'"
    and nx: "next_free h' = next_free ?h2"
    and frame: "\<forall>a. a \<notin> set (map inst_position rest) \<union> ran sel \<longrightarrow> cells h' a = cells ?h2 a"
    and vals: "\<forall>j < length rest.
              cells h' (inst_position (rest ! j)) =
                wrapped_position box (cells ?h2 (origs ! (Suc i + j))) (cells ?h2 off)"
    by blast
  have off2: "cells ?h2 off = cells h off"
    using h2_cells [of off] p_off Cons.prems(4) by auto
  have orig2: "\<And>k. k < length origs \<Longrightarrow> cells ?h2 (origs ! k) = cells h (origs ! k)"
  proof -
    fix k assume "k < length origs"
    then have m: "origs ! k \<in> set origs" by simp
    then have "origs ! k \<noteq> ?p" using p_orig by auto
    moreover have "origs ! k \<notin> ran sel" using m Cons.prems(4) by auto
    ultimately show "cells ?h2 (origs ! k) = cells h (origs ! k)"
      by (rule h2_cells)
  qed
  have c1: "\<forall>a. a \<notin> set (map inst_position (inst # rest)) \<union> ran sel \<longrightarrow> cells h' a = cells h a"
    using frame h2_cells by auto
  have c2: "\<forall>j < length (inst # rest).
              cells h' (inst_position ((inst # rest) ! j)) =
                wrapped_position box (cells h (origs ! (i + j))) (cells h off)"
  proof (intro allI impI)
    fix j assume j: "j < length (inst # rest)"
    show "cells h' (inst_position ((inst # rest) ! j)) =
            wrapped_position box (cells h (origs ! (i + j))) (cells h off)"
    proof (cases j)
      case 0
      have "cells h' ?p = cells ?h2 ?p"
        using frame p_rest p_sel by auto
      with h2_p 0 show ?thesis by simp
    next
      case (Suc k)
      with j have k: "k < length rest" by simp
      then have "Suc i + k < length origs" using Cons.prems(5) by simp
      from orig2 [OF this] vals k off2 Suc show ?thesis by simp
    qed
  qed
  from run nx h2_next c1 c2 step show ?case
    by (metis (no_types, lifting))
qed

lemma updateParticlePositions_props:
  assumes "renderer_inv g r"
  shows "\<exists>r'. updateParticlePositions r = Inr r' \<and>
           data r' = data r \<and> boxOffset r' = boxOffset r \<and>
           originalParticlePositions r' = originalParticlePositions r \<and>
           nucleotideInstances r' = nucleotideInstances r \<and>
           selectionMeshes r' = selectionMeshes r \<and>
           next_free (store r') = next_free (store r) \<and>
           (\<forall>a. a \<notin> instance_addrs r \<union> ran (selectionMeshes r) \<longrightarrow>
                cells (store r') a = cells (store r) a) \<and>
           (\<forall>j < length (nucleotideInstances r).
              cells (store r') (inst_position (nucleotideInstances r ! j)) =
                wrapped_position (meta_box (metadata g))
                  (cells (store r) (originalParticlePositions r ! j))
                  (cells (store r) (boxOffset r)))"
proof -
  from assms have d: "data r = Some g"
    and a1: "distinct (map inst_position (nucleotideInstances r))"
    and a2: "boxOffset r \<notin> set (map inst_position (nucleotideInstances r))"
    and a3: "set (originalParticlePositions r) \<inter> set (map inst_position (nucleotideInstances r)) = {}"
    and a4: "ran (selectionMeshes r) \<inter>
               (set (map inst_position (nucleotideInstances r)) \<union> set (originalParticlePositions r) \<union>
                {boxOffset r}) = {}"
    and a5: "0 + length (nucleotideInstances r) \<le> length (originalParticlePositions r)"
    unfolding renderer_inv_def instance_addrs_def by auto
  from update_instances_props [OF a1 a2 a3 a4 a5, of "meta_box (metadata g)" "store r"]
  obtain h' where run: "update_instances (meta_box (metadata g)) (boxOffset r)
        (originalParticlePositions r) (selectionMeshes r) 0 (nucleotideInstances r) (store r) = Inr h'"
    and nx: "next_free h' = next_free (store r)"
    and frame: "\<forall>a. a \<notin> set (map inst_position (nucleotideInstances r)) \<union> ran (selectionMeshes r) \<longrightarrow>
                  cells h' a = cells (store r) a"
    and vals: "\<forall>j < length (nucleotideInstances r).
              cells h' (inst_position (nucleotideInstances r ! j)) =
                wrapped_position (meta_box (metadata g))
                  (cells (store r) (originalParticlePositions r ! (0 + j)))
                  (cells (store r) (boxOffset r))"
    by blast
  show ?thesis
    using d run nx frame vals
    by (simp add: updateParticlePositions_def instance_addrs_def)
qed

lemma renderer_inv_store:
  assumes "renderer_inv g r"
    and "next_free h = next_free (store r)"
  shows "renderer_inv g (r\<lparr> store := h \<rparr>)"
  using assms by (simp add: renderer_inv_def instance_addrs_def graph_allocated_def)

lemma renderer_inv_same_shape:
  assumes "renderer_inv g r"
    and "data r' = data r" "boxOffset r' = boxOffset r"
    and "originalParticlePositions r' = originalParticlePositions r"
    and "nucleotideInstances r' = nucleotideInstances r"
    and "selectionMeshes r' = selectionMeshes r"
    and "next_free (store r') = next_free (store r)"
  shows "renderer_inv g r'"
  using assms by (simp add: renderer_inv_def instance_addrs_def graph_allocated_def)

lemma shiftParticles_props:
  assumes "renderer_inv g r"
  shows "\<exists>r'. shiftParticles axis amount r = Inr r' \<and> renderer_inv g r' \<and>
           boxOffset r' = boxOffset r \<and>
           originalParticlePositions r' = originalParticlePositions r \<and>
           nucleotideInstances r' = nucleotideInstances r \<and>
           (\<forall>a. a \<notin> instance_addrs r \<union> ran (selectionMeshes r) \<union> {boxOffset r} \<longrightarrow>
                cells (store r') a = cells (store r) a) \<and>
           cells (store r') (boxOffset r) = add_to_axis axis amount (cells (store r) (boxOffset r)) \<and>
           (\<forall>j < length (nucleotideInstances r).
              cells (store r') (inst_position (nucleotideInstances r ! j)) =
                wrapped_position (meta_box (metadata g))
                  (cells (store r) (originalParticlePositions r ! j))
                  (add_to_axis axis amount (cells (store r) (boxOffset r))))"
proof -
  let ?off = "boxOffset r"
  let ?h = "set_vec ?off (add_to_axis axis amount (cells (store r) ?off)) (store r)"
  let ?r1 = "r\<lparr> store := ?h \<rparr>"
  from assms have d: "data r = Some g" by (simp add: renderer_inv_def)
  have inv1: "renderer_inv g ?r1"
    using assms by (rule renderer_inv_store) (simp add: set_vec_props)
  from assms have off_inst: "?off \<notin> instance_addrs r"
    and off_sel: "?off \<notin> ran (selectionMeshes r)"
    and orig_off: "?off \<notin> set (originalParticlePositions r)"
    unfolding renderer_inv_def by auto
  from d have sh: "shiftParticles axis amount r = updateParticlePositions ?r1"
    by (simp add: shiftParticles_def)
  from updateParticlePositions_props [OF inv1]
  obtain r' where run: "updateParticlePositions ?r1 = Inr r'"
    and f: "data r' = data ?r1" "boxOffset r' = boxOffset ?r1"
       "originalParticlePositions r' = originalParticlePositions ?r1"
       "nucleotideInstances r' = nucleotideInstances ?r1"
       "selectionMeshes r' = selectionMeshes ?r1"
       "next_free (store r') = next_free (store ?r1)"
    and frame: "\<forall>a. a \<notin> instance_addrs ?r1 \<union> ran (selectionMeshes ?r1) \<longrightarrow>
                cells (store r') a = cells (store ?r1) a"
    and vals: "\<forall>j < length (nucleotideInstances ?r1).
              cells (store r') (inst_position (nucleotideInstances ?r1 ! j)) =
                wrapped_position (meta_box (metadata g))
                  (cells (store ?r1) (originalParticlePositions ?r1 ! j))
                  (cells (store ?r1) (boxOffset ?r1))"
    by blast
  have inv': "renderer_inv g r'"
    using inv1 f by (rule renderer_inv_same_shape)
  have c1: "\<forall>a. a \<notin> instance_addrs r \<union> ran (selectionMeshes r) \<union> {boxOffset r} \<longrightarrow>
                cells (store r') a = cells (store r) a"
    using frame by (simp add: instance_addrs_def set_vec_props)
  have c2: "cells (store r') ?off = add_to_axis axis amount (cells (store r) ?off)"
    using frame off_inst off_sel by (simp add: instance_addrs_def set_vec_props)
  have len: "length (nucleotideInstances r) = length (originalParticlePositions r)"
    using assms by (simp add: renderer_inv_def)
  have c3: "\<forall>j < length (nucleotideInstances r).
              cells (store r') (inst_position (nucleotideInstances r ! j)) =
                wrapped_position (meta_box (metadata g))
                  (cells (store r) (originalParticlePositions r ! j))
                  (add_to_axis axis amount (cells (store r) ?off))"
  proof (intro allI impI)
    fix j assume j: "j < length (nucleotideInstances r)"
    then have "originalParticlePositions r ! j \<in> set (originalParticlePositions r)"
      using len by simp
    then have "originalParticlePositions r ! j \<noteq> ?off"
      using orig_off by auto
    with vals j show "cells (store r') (inst_position (nucleotideInstances r ! j)) =
                wrapped_position (meta_box (metadata g))
                  (cells (store r) (originalParticlePositions r ! j))
                  (add_to_axis axis amount (cells (store r) ?off))"
      by (simp add: set_vec_props)
  qed
  from sh run inv' f c1 c2 c3 show ?thesis
    by simp
qed

lemma ran_delete_subset: "ran (m(k := None)) \<subseteq> ran m"
  by (auto simp: ran_def split: if_splits)

lemma renderer_inv_selection:
  assumes inv: "renderer_inv g r"
    and nx: "next_free (store r) \<le> next_free h"
    and sel: "ran sel' \<subseteq> ran (selectionMeshes r) \<union> {a. next_free (store r) \<le> a \<and> a < next_free h}"
  shows "renderer_inv g (r\<lparr> store := h, selectionMeshes := sel' \<rparr>)"
proof -
  let ?r' = "r\<lparr> store := h, selectionMeshes := sel' \<rparr>"
  from inv have d: "data r = Some g"
    and ga: "\<forall>a \<in> graph_addrs g. a < next_free (store r)"
    and al: "\<forall>a \<in> set (originalParticlePositions r) \<union> {boxOffset r} \<union> instance_addrs r \<union>
              ran (selectionMeshes r). a < next_free (store r)"
    and di: "distinct (map inst_position (nucleotideInstances r))"
    and oi: "boxOffset r \<notin> instance_addrs r"
    and dj: "(instance_addrs r \<union> {boxOffset r} \<union> ran (selectionMeshes r)) \<inter>
        (graph_addrs g \<union> set (originalParticlePositions r)) = {}"
    and sj: "ran (selectionMeshes r) \<inter> (instance_addrs r \<union> {boxOffset r}) = {}"
    and ln: "length (nucleotideInstances r) = length (originalParticlePositions r)"
    unfolding renderer_inv_def graph_allocated_def by blast+
  have ia: "instance_addrs ?r' = instance_addrs r"
    by (simp add: instance_addrs_def)
  have fresh: "\<And>a. a \<in> ran sel' \<Longrightarrow> a \<notin> ran (selectionMeshes r) \<Longrightarrow> next_free (store r) \<le> a \<and> a < next_free h"
    using sel by blast
  have c2: "graph_allocated g (store ?r')"
    using ga nx by (auto simp: graph_allocated_def)
  have c3: "\<forall>a \<in> set (originalParticlePositions ?r') \<union> {boxOffset ?r'} \<union> instance_addrs ?r' \<union>
              ran (selectionMeshes ?r'). a < next_free (store ?r')"
  proof
    fix a assume "a \<in> set (originalParticlePositions ?r') \<union> {boxOffset ?r'} \<union> instance_addrs ?r' \<union>
              ran (selectionMeshes ?r')"
    then consider "a \<in> set (originalParticlePositions r) \<union> {boxOffset r} \<union> instance_addrs r \<union>
              ran (selectionMeshes r)" | "a \<in> ran sel'" "a \<notin> ran (selectionMeshes r)"
      unfolding ia by auto
    then show "a < next_free (store ?r')"
    proof cases
      case 1
      with al have "a < next_free (store r)" by blast
      with nx show ?thesis by simp
    next
      case 2
      with fresh show ?thesis by simp
    qed
  qed
  have c6: "(instance_addrs ?r' \<union> {boxOffset ?r'} \<union> ran (selectionMeshes ?r')) \<inter>
        (graph_addrs g \<union> set (originalParticlePositions ?r')) = {}"
  proof -
    have "\<And>a. a \<in> ran sel' \<Longrightarrow> a \<notin> graph_addrs g \<union> set (originalParticlePositions r)"
    proof
      fix a assume a: "a \<in> ran sel'" and b: "a \<in> graph_addrs g \<union> set (originalParticlePositions r)"
      from b ga al have lt: "a < next_free (store r)" by blast
      from b dj have "a \<notin> ran (selectionMeshes r)" by blast
      with a fresh have "next_free (store r) \<le> a" by blast
      with lt show False by simp
    qed
    with dj show ?thesis unfolding ia by auto
  qed
  have c7: "ran (selectionMeshes ?r') \<inter> (instance_addrs ?r' \<union> {boxOffset ?r'}) = {}"
  proof -
    have "\<And>a. a \<in> ran sel' \<Longrightarrow> a \<notin> instance_addrs r \<union> {boxOffset r}"
    proof
      fix a assume a: "a \<in> ran sel'" and b: "a \<in> instance_addrs r \<union> {boxOffset r}"
      from b al have lt: "a < next_free (store r)" by blast
      from b sj have "a \<notin> ran (selectionMeshes r)" by blast
      with a fresh have "next_free (store r) \<le> a" by blast
      with lt show False by simp
    qed
    then show ?thesis unfolding ia by auto
  qed
  show ?thesis
    unfolding renderer_inv_def
    using d c2 c3 di oi c6 c7 ln
    by (simp add: ia)
qed

lemma highlightNucleotide_props:
  assumes "renderer_inv g r"
  shows "renderer_inv g (highlightNucleotide k b r) \<and>
         boxOffset (highlightNucleotide k b r) = boxOffset r \<and>
         originalParticlePositions (highlightNucleotide k b r) = originalParticlePositions r \<and>
         nucleotideInstances (highlightNucleotide k b r) = nucleotideInstances r \<and>
         (\<forall>a < next_free (store r). cells (store (highlightNucleotide k b r)) a = cells (store r) a)"
proof (cases "\<not> b")
  case True
  have "ran ((selectionMeshes r)(k := None)) \<subseteq>
          ran (selectionMeshes r) \<union> {a. next_free (store r) \<le> a \<and> a < next_free (store r)}"
    using ran_delete_subset [of "selectionMeshes r" k] by auto
  with assms have "renderer_inv g (r\<lparr> store := store r, selectionMeshes := (selectionMeshes r)(k := None) \<rparr>)"
    by (intro renderer_inv_selection) simp_all
  with True show ?thesis
    by (simp add: highlightNucleotide_def)
next
  case False
  then have b: b by simp
  show ?thesis
  proof (cases "selectionMeshes r k \<noteq> None \<or>
                find (\<lambda>inst. index (inst_particle inst) = k) (nucleotideInstances r) = None")
    case True
    with b assms show ?thesis
      by (auto simp: highlightNucleotide_def)
  next
    case False
    then obtain inst where none: "selectionMeshes r k = None"
      and fnd: "find (\<lambda>inst. index (inst_particle inst) = k) (nucleotideInstances r) = Some inst"
      by auto
    let ?a = "next_free (store r)"
    let ?h = "snd (clone (inst_position inst) (store r))"
    let ?r' = "r\<lparr> store := ?h, selectionMeshes := (selectionMeshes r)(k \<mapsto> ?a) \<rparr>"
    have eq: "highlightNucleotide k b r = ?r'"
      using b none fnd by (simp add: highlightNucleotide_def split_beta clone_props)
    have ran': "ran ((selectionMeshes r)(k \<mapsto> ?a)) = insert ?a (ran (selectionMeshes r))"
      using none by (rule ran_map_upd)
    have "renderer_inv g ?r'"
      using assms by (rule renderer_inv_selection) (simp_all add: ran' clone_props)
    moreover have "\<forall>a < next_free (store r). cells (store ?r') a = cells (store r) a"
      by (simp add: clone_props)
    ultimately show ?thesis
      by (simp add: eq)
  qed
qed

lemma perform_props:
  assumes inv: "renderer_inv g r"
  shows "\<exists>r'. perform operation r = Inr r' \<and> renderer_inv g r' \<and>
           boxOffset r' = boxOffset r \<and>
           originalParticlePositions r' = originalParticlePositions r \<and>
           nucleotideInstances r' = nucleotideInstances r \<and>
           (\<forall>a \<in> graph_addrs g \<union> set (originalParticlePositions r).
                cells (store r') a = cells (store r) a)"
proof (cases operation)
  case (Shift axis amount)
  from inv have dj: "(instance_addrs r \<union> {boxOffset r} \<union> ran (selectionMeshes r)) \<inter>
        (graph_addrs g \<union> set (originalParticlePositions r)) = {}"
    by (simp add: renderer_inv_def)
  from shiftParticles_props [OF inv, of axis amount]
  obtain r' where run: "shiftParticles axis amount r = Inr r'" and inv': "renderer_inv g r'"
    and f: "boxOffset r' = boxOffset r" "originalParticlePositions r' = originalParticlePositions r"
       "nucleotideInstances r' = nucleotideInstances r"
    and frame: "\<forall>a. a \<notin> instance_addrs r \<union> ran (selectionMeshes r) \<union> {boxOffset r} \<longrightarrow>
                cells (store r') a = cells (store r) a"
    by blast
  have "\<forall>a \<in> graph_addrs g \<union> set (originalParticlePositions r).
                cells (store r') a = cells (store r) a"
    using frame dj by blast
  with run inv' f Shift show ?thesis by simp
next
  case (Highlight k b)
  from inv have lt: "\<forall>a \<in> graph_addrs g \<union> set (originalParticlePositions r). a < next_free (store r)"
    unfolding renderer_inv_def graph_allocated_def by blast
  from highlightNucleotide_props [OF inv, of k b] lt Highlight show ?thesis
    by auto
qed

lemma perform_all_props:
  assumes "renderer_inv g r"
  shows "\<exists>r'. perform_all ops r = Inr r' \<and> renderer_inv g r' \<and>
           boxOffset r' = boxOffset r \<and>
           originalParticlePositions r' = originalParticlePositions r \<and>
           nucleotideInstances r' = nucleotideInstances r \<and>
           (\<forall>a \<in> graph_addrs g \<union> set (originalParticlePositions r).
                cells (store r') a = cells (store r) a)"
  using assms
proof (induction ops arbitrary: r)
  case Nil
  then show ?case by simp
next
  case (Cons operation ops)
  from perform_props [OF Cons.prems, of operation]
  obtain r1 where run1: "perform operation r = Inr r1" and inv1: "renderer_inv g r1"
    and f1: "boxOffset r1 = boxOffset r" "originalParticlePositions r1 = originalParticlePositions r"
       "nucleotideInstances r1 = nucleotideInstances r"
    and c1: "\<forall>a \<in> graph_addrs g \<union> set (originalParticlePositions r).
                cells (store r1) a = cells (store r) a"
    by blast
  from Cons.IH [OF inv1]
  obtain r' where run: "perform_all ops r1 = Inr r'" and inv': "renderer_inv g r'"
    and f: "boxOffset r' = boxOffset r1" "originalParticlePositions r' = originalParticlePositions r1"
       "nucleotideInstances r' = nucleotideInstances r1"
    and c: "\<forall>a \<in> graph_addrs g \<union> set (originalParticlePositions r1).
                cells (store r') a = cells (store r1) a"
    by blast
  from run1 run inv' f f1 c c1 show ?case
    by simp
qed

lemma perform_all_append:
  "perform_all (xs @ ys) r =
     (case perform_all xs r of Inl e \<Rightarrow> Inl e | Inr r' \<Rightarrow> perform_all ys r')"
  by (induction xs arbitrary: r) (simp_all split: sum.splits)

lemma settled_after_shift:
  assumes inv: "renderer_inv g r"
  shows "\<exists>r1. shiftParticles a amt r = Inr r1 \<and> renderer_inv g r1 \<and>
           (\<forall>j < length (nucleotideInstances r1).
              cells (store r1) (inst_position (nucleotideInstances r1 ! j)) =
                wrapped_position (meta_box (metadata g))
                  (cells (store r1) (originalParticlePositions r1 ! j))
                  (cells (store r1) (boxOffset r1)))"
proof -
  from inv have dj: "(instance_addrs r \<union> {boxOffset r} \<union> ran (selectionMeshes r)) \<inter>
        (graph_addrs g \<union> set (originalParticlePositions r)) = {}"
    and len: "length (nucleotideInstances r) = length (originalParticlePositions r)"
    by (simp_all add: renderer_inv_def)
  from shiftParticles_props [OF inv, of a amt]
  obtain r1 where run: "shiftParticles a amt r = Inr r1" and inv1: "renderer_inv g r1"
    and f: "boxOffset r1 = boxOffset r" "originalParticlePositions r1 = originalParticlePositions r"
       "nucleotideInstances r1 = nucleotideInstances r"
    and frame: "\<forall>a. a \<notin> instance_addrs r \<union> ran (selectionMeshes r) \<union> {boxOffset r} \<longrightarrow>
                cells (store r1) a = cells (store r) a"
    and off: "cells (store r1) (boxOffset r) = add_to_axis a amt (cells (store r) (boxOffset r))"
    and vals: "\<forall>j < length (nucleotideInstances r).
              cells (store r1) (inst_position (nucleotideInstances r ! j)) =
                wrapped_position (meta_box (metadata g))
                  (cells (store r) (originalParticlePositions r ! j))
                  (add_to_axis a amt (cells (store r) (boxOffset r)))"
    by blast
  have "\<forall>j < length (nucleotideInstances r1).
              cells (store r1) (inst_position (nucleotideInstances r1 ! j)) =
                wrapped_position (meta_box (metadata g))
                  (cells (store r1) (originalParticlePositions r1 ! j))
                  (cells (store r1) (boxOffset r1))"
  proof (intro allI impI)
    fix j assume j: "j < length (nucleotideInstances r1)"
    then have "originalParticlePositions r ! j \<in> set (originalParticlePositions r)"
      using len f by simp
    then have "originalParticlePositions r ! j \<notin> instance_addrs r \<union> ran (selectionMeshes r) \<union> {boxOffset r}"
      using dj by blast
    with frame have "cells (store r1) (originalParticlePositions r ! j) =
                     cells (store r) (originalParticlePositions r ! j)"
      by blast
    with vals j f off
    show "cells (store r1) (inst_position (nucleotideInstances r1 ! j)) =
                wrapped_position (meta_box (metadata g))
                  (cells (store r1) (originalParticlePositions r1 ! j))
                  (cells (store r1) (boxOffset r1))"
      by simp
  qed
  with run inv1 show ?thesis by blast
qed

lemma lone_session_eq:
  "lone_session = loadData (fst lone_graph) (new_renderer\<lparr> store := snd lone_graph \<rparr>)"
  by (simp add: lone_session_def visualize_def lone_graph_def split_beta)

text \<open>
  The first shift after loading. The instance at position \<open>j\<close> of the instance list
  draws the particle at position \<open>j\<close> of the strand groups, and is placed at the
  wrapped original position of the particle at position \<open>j\<close> of the graph. The two
  particles are the same when the graph lists its particles by strand group; with the
  strands 1 and 0, in this order, each of the two instances is placed from the position
  of the other particle.
\<close>

lemma first_shift_places_instances:
  assumes alloc: "graph_allocated g (store r0)"
  shows "displayed_after (shiftParticles a amt (loadData g r0)) =
           Some (map (\<lambda>j. (index (strand_groups (particles g) ! j),
                            wrapped_position (meta_box (metadata g))
                              (cells (store r0) (position (particles g ! j)))
                              (add_to_axis a amt zero_vec)))
                   [0..<length (particles g)])"
proof -
  let ?r1 = "loadData g r0"
  have inv: "renderer_inv g ?r1"
    using alloc by (rule loadData_inv)
  from shiftParticles_props [OF inv, of a amt]
  obtain r' where run: "shiftParticles a amt ?r1 = Inr r'"
    and insts: "nucleotideInstances r' = nucleotideInstances ?r1"
    and vals: "\<forall>j < length (nucleotideInstances ?r1).
              cells (store r') (inst_position (nucleotideInstances ?r1 ! j)) =
                wrapped_position (meta_box (metadata g))
                  (cells (store ?r1) (originalParticlePositions ?r1 ! j))
                  (add_to_axis a amt (cells (store ?r1) (boxOffset ?r1)))"
    by blast
  have len: "length (nucleotideInstances ?r1) = length (particles g)"
    using loadData_fields(6) [of g r0] length_strand_groups [of "particles g"]
    by (metis length_map)
  have parts: "\<And>j. j < length (particles g) \<Longrightarrow>
          inst_particle (nucleotideInstances ?r1 ! j) = strand_groups (particles g) ! j"
    using loadData_fields(6) [of g r0] len by (metis nth_map)
  have snap: "\<And>j. j < length (particles g) \<Longrightarrow>
          cells (store ?r1) (originalParticlePositions ?r1 ! j) =
          cells (store r0) (position (particles g ! j))"
  proof -
    fix j assume j: "j < length (particles g)"
    then have "position (particles g ! j) < next_free (store r0)"
      using alloc position_in_graph_addrs by (auto simp: graph_allocated_def)
    with j show "cells (store ?r1) (originalParticlePositions ?r1 ! j) =
          cells (store r0) (position (particles g ! j))"
      by (rule loadData_snapshot)
  qed
  have "displayed r' =
          map (\<lambda>j. (index (strand_groups (particles g) ! j),
                     wrapped_position (meta_box (metadata g))
                       (cells (store r0) (position (particles g ! j)))
                       (add_to_axis a amt zero_vec)))
            [0..<length (particles g)]"
  proof (rule nth_equalityI)
    show "length (displayed r') = length (map (\<lambda>j. (index (strand_groups (particles g) ! j),
                     wrapped_position (meta_box (metadata g))
                       (cells (store r0) (position (particles g ! j)))
                       (add_to_axis a amt zero_vec)))
            [0..<length (particles g)])"
      by (simp add: displayed_def insts len)
  next
    fix j assume "j < length (displayed r')"
    then have j: "j < length (particles g)"
      by (simp add: displayed_def insts len)
    with vals len have "cells (store r') (inst_position (nucleotideInstances ?r1 ! j)) =
                wrapped_position (meta_box (metadata g))
                  (cells (store ?r1) (originalParticlePositions ?r1 ! j))
                  (add_to_axis a amt (cells (store ?r1) (boxOffset ?r1)))"
      by simp
    with j show "displayed r' ! j = map (\<lambda>j. (index (strand_groups (particles g) ! j),
                     wrapped_position (meta_box (metadata g))
                       (cells (store r0) (position (particles g ! j)))
                       (add_to_axis a amt zero_vec)))
            [0..<length (particles g)] ! j"
      by (simp add: displayed_def insts len parts snap loadData_offset_zero)
  qed
  with run show ?thesis
    by (simp add: displayed_after_def)
qed

lemma strand_groups_swap:
  assumes "strand p = Some 1" "strand q = Some 0"
  shows "strand_groups [p, q] = [q, p]"
  using assms
  by (simp add: strand_groups_def strand_keys_def array_index_def List.map_filter_simps)

lemma first_shift_swaps_two_strands:
  assumes "graph_allocated g (store r0)"
    and "particles g = [p, q]" "strand p = Some 1" "strand q = Some 0"
  shows "displayed_after (shiftParticles a amt (loadData g r0)) =
           Some [(index q, wrapped_position (meta_box (metadata g))
                             (cells (store r0) (position p)) (add_to_axis a amt zero_vec)),
                 (index p, wrapped_position (meta_box (metadata g))
                             (cells (store r0) (position q)) (add_to_axis a amt zero_vec))]"
proof -
  have "[0..<length (particles g)] = [0, Suc 0]"
    using assms(2) by (simp add: upt_rec)
  then show ?thesis
    using first_shift_places_instances [OF assms(1), of a amt]
      strand_groups_swap [OF assms(3) assms(4)] assms(2)
    by simp
qed

text \<open>
  C9. After loading a graph whose vectors are in the store, every sequence of shifts,
  with selection meshes created and removed in between, returns; the renderer still
  holds the same graph, every vector of the graph has its load-time value, and the
  snapshot of canonical positions is the list of the load-time positions. Loading
  leaves the offset at the zero vector, whatever the renderer held before.
\<close>

theorem shifts_preserve_graph_and_snapshot:
  assumes "graph_allocated g (store r0)"
  shows "\<exists>r. perform_all ops (loadData g r0) = Inr r \<and>
            data r = Some g \<and>
            deref_graph (store r) g = deref_graph (store r0) g \<and>
            canonical r = map (\<lambda>p. cells (store r0) (position p)) (particles g) \<and>
            cells (store (loadData g r0)) (boxOffset (loadData g r0)) = zero_vec"
proof -
  let ?r1 = "loadData g r0"
  from perform_all_props [OF loadData_inv [OF assms], of ops]
  obtain r where run: "perform_all ops ?r1 = Inr r" and inv: "renderer_inv g r"
    and orig: "originalParticlePositions r = originalParticlePositions ?r1"
    and frame: "\<forall>a \<in> graph_addrs g \<union> set (originalParticlePositions ?r1).
                cells (store r) a = cells (store ?r1) a"
    by blast
  from inv have d: "data r = Some g"
    by (simp add: renderer_inv_def)
  have "\<forall>a \<in> graph_addrs g. cells (store r) a = cells (store r0) a"
  proof
    fix a assume a: "a \<in> graph_addrs g"
    with assms have "a < next_free (store r0)"
      by (simp add: graph_allocated_def)
    then have "cells (store ?r1) a = cells (store r0) a"
      by (rule loadData_old_cells)
    with frame a show "cells (store r) a = cells (store r0) a"
      by simp
  qed
  then have g: "deref_graph (store r) g = deref_graph (store r0) g"
    by (rule deref_graph_cong)
  have "canonical r = canonical ?r1"
    using frame by (simp add: canonical_def orig)
  then have c: "canonical r = map (\<lambda>p. cells (store r0) (position p)) (particles g)"
    by (simp add: loadData_canonical [OF assms])
  from run d g c loadData_offset_zero [of g r0] show ?thesis
    by blast
qed

theorem shifts_preserve_graph_and_snapshot_witness:
  "graph_allocated (fst lone_graph) (snd lone_graph) \<and>
   (\<exists>r. perform_all [Shift ''x'' (Num 3), Shift ''z'' (Num (- 4))] lone_session = Inr r \<and>
        data r = Some (fst lone_graph) \<and>
        deref_graph (store r) (fst lone_graph) = combine example_topology lone_configuration \<and>
        canonical r = [\<lparr> vec_x = Num 15, vec_y = Num 2, vec_z = Num 3 \<rparr>]) \<and>
   cells (store lone_session) (boxOffset lone_session) = zero_vec"
proof -
  have alloc: "graph_allocated (fst lone_graph) (store (new_renderer\<lparr> store := snd lone_graph \<rparr>))"
    by code_simp
  have g0: "deref_graph (snd lone_graph) (fst lone_graph) = combine example_topology lone_configuration"
    by code_simp
  have c0: "map (\<lambda>p. cells (snd lone_graph) (position p)) (particles (fst lone_graph)) =
              [\<lparr> vec_x = Num 15, vec_y = Num 2, vec_z = Num 3 \<rparr>]"
    by code_simp
  from shifts_preserve_graph_and_snapshot [OF alloc, of "[Shift ''x'' (Num 3), Shift ''z'' (Num (- 4))]"]
  obtain r where "perform_all [Shift ''x'' (Num 3), Shift ''z'' (Num (- 4))] lone_session = Inr r"
    and "data r = Some (fst lone_graph)"
    and "deref_graph (store r) (fst lone_graph) = combine example_topology lone_configuration"
    and "canonical r = [\<lparr> vec_x = Num 15, vec_y = Num 2, vec_z = Num 3 \<rparr>]"
    and "cells (store lone_session) (boxOffset lone_session) = zero_vec"
    unfolding lone_session_eq [symmetric] by (auto simp: g0 c0 simp del: perform_all.simps)
  with alloc show ?thesis
    by auto
qed

end
